theory Spec2Isabelle
  imports Complex_Main
begin

section \<open>History engine\<close>

text \<open>
  The canvas page obtains its undo/redo history from the hook \<open>useHistory\<close>
  (\<open>@/hooks/useHistory\<close>), called as
  \<open>useHistory({ initialState: { lines: [], shapes: [] }, maxHistory: 50 })\<close> and used through
  \<open>history.state\<close>, \<open>history.setState\<close>, \<open>history.undo\<close>, \<open>history.redo\<close>,
  \<open>history.canUndo\<close> and \<open>history.canRedo\<close>. The hook's file is not among the sources, so
  the engine below follows the specification's section 4.2.
\<close>

record 'a History =
  entries :: "'a list"
  cursor :: nat

text \<open>
  Modelled from the spec: the \<open>Empty\<close> state of the History Engine (no entries yet). The
  cursor of an empty history points at nothing; it is kept at \<open>0\<close>.
\<close>

definition emptyHistory :: "'a History" where
  "emptyHistory = \<lparr>entries = [], cursor = 0\<rparr>"

text \<open>
  Modelled from the spec: what \<open>useHistory({initialState, maxHistory})\<close> starts from, a
  history whose only entry is the initial state.
\<close>

definition useHistory :: "'a \<Rightarrow> 'a History" where
  "useHistory initialState = \<lparr>entries = [initialState], cursor = 0\<rparr>"

text \<open>The capacity the canvas page asks for: \<open>maxHistory: 50\<close>.\<close>

definition maxHistory :: nat where
  "maxHistory = 50"

text \<open>
  Modelled from the spec: \<open>push(state)\<close> of section 4.2 (\<open>history.setState\<close> of the page):
  "if cursor is at the last index, appends; otherwise truncates everything after the cursor
  first, then appends; advances cursor to the new last index; if the sequence now exceeds
  capacity N, removes index 0 and decrements cursor by one".
\<close>

definition push :: "nat \<Rightarrow> 'a \<Rightarrow> 'a History \<Rightarrow> 'a History" where
  "push N s h =
     (let kept = (if cursor h + 1 = length (entries h) then entries h
                  else take (cursor h + 1) (entries h));
          es = kept @ [s];
          c = length es - 1
      in if N < length es then \<lparr>entries = tl es, cursor = c - 1\<rparr>
         else \<lparr>entries = es, cursor = c\<rparr>)"

text \<open>Modelled from the spec: \<open>canUndo\<close> and \<open>canRedo\<close>, "pure predicates derived from
  cursor position".\<close>

definition canUndo :: "'a History \<Rightarrow> bool" where
  "canUndo h = (0 < cursor h)"

definition canRedo :: "'a History \<Rightarrow> bool" where
  "canRedo h = (cursor h + 1 < length (entries h))"

text \<open>
  Modelled from the spec: \<open>undo()\<close> and \<open>redo()\<close> of section 4.2. Each moves the cursor by
  one when it can and is a no-op at its bound; the entry "now pointed to" is read with
  \<open>state\<close>.
\<close>

definition undo :: "'a History \<Rightarrow> 'a History" where
  "undo h = (if canUndo h then h\<lparr>cursor := cursor h - 1\<rparr> else h)"

definition redo :: "'a History \<Rightarrow> 'a History" where
  "redo h = (if canRedo h then h\<lparr>cursor := cursor h + 1\<rparr> else h)"

text \<open>Modelled from the spec: \<open>history.state\<close>, the entry under the cursor; \<open>None\<close> for an
  empty history.\<close>

definition state :: "'a History \<Rightarrow> 'a option" where
  "state h = (if cursor h < length (entries h) then Some (entries h ! cursor h) else None)"

text \<open>The engine's operations, a sequence of them run in order from a history, and a
  sequence of pushes.\<close>

datatype 'a HistoryOp = Push 'a | Undo | Redo

fun applyOp :: "nat \<Rightarrow> 'a History \<Rightarrow> 'a HistoryOp \<Rightarrow> 'a History" where
  "applyOp N h (Push s) = push N s h"
| "applyOp N h Undo = undo h"
| "applyOp N h Redo = redo h"

definition runOps :: "nat \<Rightarrow> 'a HistoryOp list \<Rightarrow> 'a History \<Rightarrow> 'a History" where
  "runOps N ops h = foldl (applyOp N) h ops"

definition pushAll :: "nat \<Rightarrow> 'a list \<Rightarrow> 'a History \<Rightarrow> 'a History" where
  "pushAll N ss h = foldl (\<lambda>h s. push N s h) h ss"

text \<open>The cursor is a valid index, or the history is empty with the cursor at \<open>0\<close>.\<close>

definition cursorValid :: "'a History \<Rightarrow> bool" where
  "cursorValid h = (if entries h = [] then cursor h = 0 else cursor h < length (entries h))"

text \<open>Navigation operations: everything but a push.\<close>

definition isNav :: "'a HistoryOp \<Rightarrow> bool" where
  "isNav op = (case op of Push _ \<Rightarrow> False | _ \<Rightarrow> True)"

text \<open>The specification's example: entries A, B, C, D with the cursor at B.\<close>

definition exampleABCD :: "string History" where
  "exampleABCD = \<lparr>entries = [''A'', ''B'', ''C'', ''D''], cursor = 1\<rparr>"

section \<open>Drawing surface (SketchCanvas.tsx)\<close>

text \<open>
  The interfaces \<open>LineData\<close> and \<open>ShapeData\<close> of the component. Optional fields
  (\<open>color?\<close>, \<open>width?\<close>, ...) are \<open>option\<close>s. The fragments handed to
  \<open>insertTemplate\<close> are typed \<open>any\<close> and the galleries' shapes carry no \<open>id\<close>, so the
  identifier is optional too. Both interfaces have a field \<open>width\<close>, and \<open>id\<close>, \<open>x\<close>,
  \<open>y\<close> would capture HOL names, so the fields are prefixed \<open>l_\<close> and \<open>s_\<close>.
  JavaScript numbers are taken as real numbers (no rounding, no NaN).
\<close>

record LineData =
  l_tool :: string
  l_points :: "real list"
  l_color :: "string option"
  l_width :: "real option"

datatype ShapeType = Rectangle | Circle | Text | Image

record ShapeData =
  s_id :: "string option"
  s_type :: ShapeType
  s_x :: real
  s_y :: real
  s_width :: "real option"
  s_height :: "real option"
  s_radius :: "real option"
  s_text :: "string option"
  s_fill :: "string option"
  s_stroke :: "string option"
  s_strokeWidth :: "real option"

text \<open>
  The value \<open>{ lines, shapes }\<close> exchanged with the history, and the component's state:
  \<open>lines\<close>, \<open>shapes\<close>, \<open>isDrawing\<close> and \<open>currentShape\<close> (the panning and text-input
  state does not touch the drawing and is left out).
\<close>

record DrawingState =
  lines :: "LineData list"
  shapes :: "ShapeData list"

record Canvas = DrawingState +
  isDrawing :: bool
  currentShape :: "ShapeData option"

text \<open>The component's properties that the handlers read.\<close>

record Props =
  tool :: string
  strokeColor :: string
  fillColor :: string
  strokeWidth :: real

text \<open>The argument of \<open>insertTemplate(data: any)\<close>: either array may be absent.\<close>

record TemplateData =
  t_lines :: "LineData list option"
  t_shapes :: "ShapeData list option"

definition initialCanvas :: Canvas where
  "initialCanvas = \<lparr>lines = [], shapes = [], isDrawing = False, currentShape = None\<rparr>"

text \<open>\<open>getCanvasData\<close>: the current \<open>lines\<close> and \<open>shapes\<close> (the wrapper drops the
  \<open>width\<close> and \<open>height\<close> that come with them).\<close>

definition getCanvasData :: "Canvas \<Rightarrow> DrawingState" where
  "getCanvasData c = \<lparr>lines = lines c, shapes = shapes c\<rparr>"

definition clearCanvas :: "Canvas \<Rightarrow> Canvas" where
  "clearCanvas c = c\<lparr>lines := [], shapes := []\<rparr>"

text \<open>JavaScript's \<open>v || d\<close> on an optional string (absent and empty are falsy) and on an
  optional number (absent and zero are falsy).\<close>

definition orString :: "string option \<Rightarrow> string \<Rightarrow> string" where
  "orString v d = (case v of None \<Rightarrow> d | Some s \<Rightarrow> if s = [] then d else s)"

definition orNumber :: "real option \<Rightarrow> real \<Rightarrow> real" where
  "orNumber v d = (case v of None \<Rightarrow> d | Some r \<Rightarrow> if r = 0 then d else r)"

text \<open>
  The object built for one incoming shape:
  \<open>{ ...s, id: s.id || `shape-${Date.now()}-${Math.random()}`, stroke: s.stroke || strokeColor,
  strokeWidth: s.strokeWidth || 2, fill: s.fill || "transparent" }\<close>.
  The value of the template literal is the parameter \<open>generated\<close>.
\<close>

definition templateShape :: "string \<Rightarrow> string \<Rightarrow> ShapeData \<Rightarrow> ShapeData" where
  "templateShape stroke generated s =
     s\<lparr>s_id := Some (orString (s_id s) generated),
       s_stroke := Some (orString (s_stroke s) stroke),
       s_strokeWidth := Some (orNumber (s_strokeWidth s) 2),
       s_fill := Some (orString (s_fill s) ''transparent'')\<rparr>"

text \<open>
  \<open>insertTemplate\<close>. \<open>genId i\<close> is what the template literal evaluates to for the shape at
  index \<open>i\<close> of \<open>data.shapes\<close>; nothing is assumed about it.
\<close>

definition newShapes :: "Props \<Rightarrow> (nat \<Rightarrow> string) \<Rightarrow> ShapeData list \<Rightarrow> ShapeData list" where
  "newShapes props genId ss =
     map (\<lambda>(i, s). templateShape (strokeColor props) (genId i) s) (enumerate 0 ss)"

definition insertTemplate :: "Props \<Rightarrow> (nat \<Rightarrow> string) \<Rightarrow> TemplateData \<Rightarrow> Canvas \<Rightarrow> Canvas" where
  "insertTemplate props genId data c =
     (let c1 = (case t_lines data of None \<Rightarrow> c | Some ls \<Rightarrow> c\<lparr>lines := lines c @ ls\<rparr>)
      in case t_shapes data of
           None \<Rightarrow> c1
         | Some ss \<Rightarrow> c1\<lparr>shapes := shapes c1 @ newShapes props genId ss\<rparr>)"

text \<open>The identifiers of the shapes on the canvas.\<close>

definition shapeIds :: "ShapeData list \<Rightarrow> string option list" where
  "shapeIds ss = map s_id ss"

subsection \<open>The bin tool\<close>

text \<open>The three hit tests of the bin branch of \<open>handleMouseDown\<close>; an image is never hit.\<close>

definition hitShape :: "real \<times> real \<Rightarrow> ShapeData \<Rightarrow> bool" where
  "hitShape pos shape =
     (case s_type shape of
        Rectangle \<Rightarrow>
          (let x1 = s_x shape; y1 = s_y shape;
               x2 = s_x shape + orNumber (s_width shape) 0;
               y2 = s_y shape + orNumber (s_height shape) 0
           in fst pos \<ge> min x1 x2 \<and> fst pos \<le> max x1 x2 \<and>
              snd pos \<ge> min y1 y2 \<and> snd pos \<le> max y1 y2)
      | Circle \<Rightarrow>
          (let dx = fst pos - s_x shape; dy = snd pos - s_y shape;
               r = orNumber (s_radius shape) 0
           in dx * dx + dy * dy \<le> r * r)
      | Text \<Rightarrow>
          (let x1 = s_x shape; y1 = s_y shape; x2 = s_x shape + 100; y2 = s_y shape + 30
           in fst pos \<ge> x1 \<and> fst pos \<le> x2 \<and> snd pos \<ge> y1 \<and> snd pos \<le> y2)
      | Image \<Rightarrow> False)"

text \<open>\<open>for (let i = shapes.length - 1; i >= 0; i--)\<close>: \<open>findHitShape pos shapes n\<close> tests
  the indices \<open>n - 1\<close> down to \<open>0\<close> and gives the first one hit.\<close>

fun findHitShape :: "real \<times> real \<Rightarrow> ShapeData list \<Rightarrow> nat \<Rightarrow> nat option" where
  "findHitShape pos ss 0 = None"
| "findHitShape pos ss (Suc i) =
     (if hitShape pos (ss ! i) then Some i else findHitShape pos ss i)"

definition hitThreshold :: real where
  "hitThreshold = 10"

text \<open>One segment of a line: the distance from the click to its projection on the
  segment, clamped to the segment's ends; a segment of length zero is skipped.\<close>

definition segmentDist :: "real \<times> real \<Rightarrow> real \<Rightarrow> real \<Rightarrow> real \<Rightarrow> real \<Rightarrow> real" where
  "segmentDist pos x1 y1 x2 y2 =
     (let lineLen = sqrt ((x2 - x1)\<^sup>2 + (y2 - y1)\<^sup>2);
          t = max 0 (min 1 (((fst pos - x1) * (x2 - x1) + (snd pos - y1) * (y2 - y1)) / lineLen\<^sup>2));
          projX = x1 + t * (x2 - x1);
          projY = y1 + t * (y2 - y1)
      in sqrt ((fst pos - projX)\<^sup>2 + (snd pos - projY)\<^sup>2))"

definition hitSegment :: "real \<times> real \<Rightarrow> real \<Rightarrow> real \<Rightarrow> real \<Rightarrow> real \<Rightarrow> real \<Rightarrow> bool" where
  "hitSegment pos reach x1 y1 x2 y2 =
     (if sqrt ((x2 - x1)\<^sup>2 + (y2 - y1)\<^sup>2) = 0 then False
      else segmentDist pos x1 y1 x2 y2 \<le> reach)"

text \<open>\<open>for (let j = 0; j < points.length - 2; j += 2)\<close> over the flat coordinate array. A
  trailing odd coordinate leaves \<open>y2\<close> undefined, and no comparison with it succeeds.\<close>

fun hitSegments :: "real \<times> real \<Rightarrow> real \<Rightarrow> real list \<Rightarrow> bool" where
  "hitSegments pos reach (x1 # y1 # x2 # y2 # rest) =
     (hitSegment pos reach x1 y1 x2 y2 \<or> hitSegments pos reach (x2 # y2 # rest))"
| "hitSegments pos reach ps = False"

definition hitLine :: "real \<times> real \<Rightarrow> LineData \<Rightarrow> bool" where
  "hitLine pos line = hitSegments pos (hitThreshold + orNumber (l_width line) 5 / 2) (l_points line)"

fun findHitLine :: "real \<times> real \<Rightarrow> LineData list \<Rightarrow> nat \<Rightarrow> nat option" where
  "findHitLine pos ls 0 = None"
| "findHitLine pos ls (Suc i) =
     (if hitLine pos (ls ! i) then Some i else findHitLine pos ls i)"

text \<open>\<open>xs.filter((_, idx) => idx !== i)\<close>.\<close>

definition removeAt :: "nat \<Rightarrow> 'a list \<Rightarrow> 'a list" where
  "removeAt i xs = map snd (filter (\<lambda>(idx, _). idx \<noteq> i) (enumerate 0 xs))"

text \<open>The bin branch of \<open>handleMouseDown\<close>: shapes first, then lines; the handler returns
  no value in any case.\<close>

definition binClick :: "real \<times> real \<Rightarrow> Canvas \<Rightarrow> Canvas" where
  "binClick pos c =
     (case findHitShape pos (shapes c) (length (shapes c)) of
        Some i \<Rightarrow> c\<lparr>shapes := removeAt i (shapes c)\<rparr>
      | None \<Rightarrow>
          (case findHitLine pos (lines c) (length (lines c)) of
             Some i \<Rightarrow> c\<lparr>lines := removeAt i (lines c)\<rparr>
           | None \<Rightarrow> c))"

subsection \<open>The pointer handlers\<close>

text \<open>
  \<open>handleMouseDown\<close>. \<open>spacePressed\<close> starts a pan; \<open>pos\<close> is the transformed pointer
  position (absent when the stage has none); \<open>now\<close> is the text of \<open>Date.now()\<close>. The text
  tool only opens the input box.
\<close>

definition handleMouseDown :: "Props \<Rightarrow> bool \<Rightarrow> (real \<times> real) option \<Rightarrow> string \<Rightarrow> Canvas \<Rightarrow> Canvas" where
  "handleMouseDown props spacePressed pos now c =
     (if spacePressed then c
      else case pos of
        None \<Rightarrow> c
      | Some p \<Rightarrow>
          if tool props = ''bin'' then binClick p c
          else if tool props = ''pen'' then
            c\<lparr>lines := lines c @
                 [\<lparr>l_tool = ''pen'', l_points = [fst p, snd p],
                   l_color = Some (strokeColor props), l_width = Some (strokeWidth props)\<rparr>],
              isDrawing := True\<rparr>
          else if tool props = ''shape'' \<or> tool props = ''rectangle'' \<or> tool props = ''circle'' then
            c\<lparr>isDrawing := True,
              currentShape := Some
                \<lparr>s_id = Some (''shape-'' @ now),
                 s_type = (if tool props = ''circle'' then Circle else Rectangle),
                 s_x = fst p, s_y = snd p,
                 s_width = Some 0, s_height = Some 0, s_radius = Some 0,
                 s_text = None,
                 s_fill = Some (fillColor props),
                 s_stroke = Some (strokeColor props),
                 s_strokeWidth = Some (strokeWidth props)\<rparr>\<rparr>
          else c)"

text \<open>
  \<open>handleMouseMove\<close>. With the pen, \<open>lines[lines.length - 1]\<close> of an empty array is
  undefined and reading its \<open>points\<close> throws: the result \<open>None\<close>.
\<close>

definition handleMouseMove :: "Props \<Rightarrow> (real \<times> real) option \<Rightarrow> Canvas \<Rightarrow> Canvas option" where
  "handleMouseMove props point c =
     (if \<not> isDrawing c then Some c
      else case point of
        None \<Rightarrow> Some c
      | Some p \<Rightarrow>
          if tool props = ''pen'' then
            (if lines c = [] then None
             else Some (c\<lparr>lines := butlast (lines c) @
                    [(last (lines c))\<lparr>l_points := l_points (last (lines c)) @ [fst p, snd p]\<rparr>]\<rparr>))
          else case currentShape c of
            None \<Rightarrow> Some c
          | Some cs \<Rightarrow>
              if tool props = ''shape'' \<or> tool props = ''rectangle'' \<or> tool props = ''circle'' then
                (case s_type cs of
                   Rectangle \<Rightarrow>
                     Some (c\<lparr>currentShape := Some (cs\<lparr>s_width := Some (fst p - s_x cs),
                                                        s_height := Some (snd p - s_y cs)\<rparr>)\<rparr>)
                 | Circle \<Rightarrow>
                     Some (c\<lparr>currentShape := Some (cs\<lparr>s_radius :=
                        Some (sqrt ((fst p - s_x cs) * (fst p - s_x cs) +
                                    (snd p - s_y cs) * (snd p - s_y cs)))\<rparr>)\<rparr>)
                 | _ \<Rightarrow> Some c)
              else Some c)"

text \<open>\<open>handleMouseUp\<close>: "Prevent adding 0-size shapes".\<close>

definition handleMouseUp :: "Canvas \<Rightarrow> Canvas" where
  "handleMouseUp c =
     (case currentShape c of
        None \<Rightarrow> c\<lparr>isDrawing := False\<rparr>
      | Some cs \<Rightarrow>
          if (s_type cs = Rectangle \<and> s_width cs \<noteq> Some 0) \<or>
             (s_type cs = Circle \<and> s_radius cs \<noteq> Some 0)
          then c\<lparr>shapes := shapes c @ [cs], isDrawing := False, currentShape := None\<rparr>
          else c\<lparr>isDrawing := False, currentShape := None\<rparr>)"

text \<open>\<open>handleTextSubmit\<close> of the text input box: \<open>now\<close> is the text of \<open>Date.now()\<close>,
  \<open>trimmed\<close> the trimmed input, \<open>place\<close> the pending position.\<close>

definition handleTextSubmit :: "Props \<Rightarrow> string \<Rightarrow> string \<Rightarrow> real \<times> real \<Rightarrow> Canvas \<Rightarrow> Canvas" where
  "handleTextSubmit props now trimmed place c =
     (if trimmed \<noteq> [] then
        c\<lparr>shapes := shapes c @
             [\<lparr>s_id = Some (''text-'' @ now), s_type = Text, s_x = fst place, s_y = snd place,
               s_width = None, s_height = None, s_radius = None,
               s_text = Some trimmed,
               s_fill = Some (strokeColor props),
               s_stroke = Some (strokeColor props),
               s_strokeWidth = None\<rparr>]\<rparr>
      else c)"

subsection \<open>Example values\<close>

text \<open>The component's default properties, with the pen as the tool.\<close>

definition defaultProps :: Props where
  "defaultProps = \<lparr>tool = ''pen'', strokeColor = ''#000000'', fillColor = ''transparent'',
     strokeWidth = 5\<rparr>"

text \<open>The rectangle of the palette's Button component,
  \<open>{ type: 'rectangle', x: 200, y: 200, width: 120, height: 45 }\<close>, as it arrives from the
  gallery and as it stands on the canvas once inserted; and a pen stroke across it.\<close>

definition paletteRect :: ShapeData where
  "paletteRect = \<lparr>s_id = None, s_type = Rectangle, s_x = 200, s_y = 200,
     s_width = Some 120, s_height = Some 45, s_radius = None, s_text = None,
     s_fill = None, s_stroke = None, s_strokeWidth = None\<rparr>"

definition buttonRect :: ShapeData where
  "buttonRect = \<lparr>s_id = Some ''shape-1-0.5'', s_type = Rectangle, s_x = 200, s_y = 200,
     s_width = Some 120, s_height = Some 45, s_radius = None, s_text = None,
     s_fill = Some ''transparent'', s_stroke = Some ''#000000'', s_strokeWidth = Some 2\<rparr>"

definition strokeAcross :: LineData where
  "strokeAcross = \<lparr>l_tool = ''pen'', l_points = [190, 210, 230, 210],
     l_color = Some ''#000000'', l_width = Some 5\<rparr>"

text \<open>A pen stroke whose two points coincide (a press and a move without displacement),
  alone on the canvas.\<close>

definition dotStroke :: LineData where
  "dotStroke = \<lparr>l_tool = ''pen'', l_points = [5, 5, 5, 5],
     l_color = Some ''#000000'', l_width = Some 5\<rparr>"

definition dotCanvas :: Canvas where
  "dotCanvas = initialCanvas\<lparr>lines := [dotStroke]\<rparr>"

text \<open>The inserted button rectangle alone on the canvas, and with the stroke across it.\<close>

definition buttonCanvas :: Canvas where
  "buttonCanvas = initialCanvas\<lparr>shapes := [buttonRect]\<rparr>"

definition strokeOverButton :: Canvas where
  "strokeOverButton = initialCanvas\<lparr>lines := [strokeAcross], shapes := [buttonRect]\<rparr>"

text \<open>The stroke alone on the canvas.\<close>

definition strokeCanvas :: Canvas where
  "strokeCanvas = initialCanvas\<lparr>lines := [strokeAcross]\<rparr>"

text \<open>A rectangle being dragged, as \<open>handleMouseDown\<close> creates it, of the given width.\<close>

definition draggedRect :: "real \<Rightarrow> ShapeData" where
  "draggedRect w = \<lparr>s_id = Some ''shape-1'', s_type = Rectangle, s_x = 10, s_y = 10,
     s_width = Some w, s_height = Some 20, s_radius = Some 0, s_text = None,
     s_fill = Some ''transparent'', s_stroke = Some ''#000000'', s_strokeWidth = Some 5\<rparr>"

subsection \<open>Auxiliary notions\<close>

text \<open>\<open>tool === "shape" || tool === "rectangle" || tool === "circle"\<close>.\<close>

definition isShapeTool :: "Props \<Rightarrow> bool" where
  "isShapeTool props = (tool props = ''shape'' \<or> tool props = ''rectangle'' \<or> tool props = ''circle'')"

text \<open>The default properties with the rectangle tool selected.\<close>

definition rectangleProps :: Props where
  "rectangleProps = defaultProps\<lparr>tool := ''rectangle''\<rparr>"

text \<open>The canvas with the button rectangle on it and a rectangle of width \<open>w\<close> in progress.\<close>

definition dragging :: "real \<Rightarrow> Canvas" where
  "dragging w = buttonCanvas\<lparr>isDrawing := True, currentShape := Some (draggedRect w)\<rparr>"

text \<open>One outcome of the template literal for generated identifiers.\<close>

definition freshButtonIds :: "nat \<Rightarrow> string" where
  "freshButtonIds i = ''shape-2-0.7''"

text \<open>\<open>data.shapes\<close> and \<open>data.lines\<close>, nothing when absent.\<close>

definition incoming :: "TemplateData \<Rightarrow> ShapeData list" where
  "incoming data = (case t_shapes data of None \<Rightarrow> [] | Some ss \<Rightarrow> ss)"

definition incomingLines :: "TemplateData \<Rightarrow> LineData list" where
  "incomingLines data = (case t_lines data of None \<Rightarrow> [] | Some ls \<Rightarrow> ls)"

text \<open>\<open>s.id\<close> is falsy: absent or empty.\<close>

definition lacksId :: "ShapeData \<Rightarrow> bool" where
  "lacksId s = (s_id s = None \<or> s_id s = Some [])"

section \<open>Synchronization with the history (SketchCanvasWithHistory.tsx)\<close>

text \<open>
  The wrapper around the canvas: \<open>canvasState\<close> is \<open>history.state\<close> and
  \<open>onStateChange\<close> is \<open>history.setState\<close>, the push of the history engine;
  \<open>canvasRef.current\<close> is the canvas component, absent while it is not mounted;
  \<open>isApplyingHistory\<close> is the wrapper's flag; \<open>insertTimers\<close> counts the pending
  100 ms timers that \<open>insertTemplate\<close> has set. The timer that resets the flag is
  pending exactly while the flag is set.
\<close>

record Bridge =
  hist :: "DrawingState History"
  canvasRef :: "Canvas option"
  isApplyingHistory :: bool
  insertTimers :: nat

text \<open>\<open>canvasState\<close> handed to \<open>insertTemplate\<close>: both arrays are present.\<close>

definition asTemplate :: "DrawingState \<Rightarrow> TemplateData" where
  "asTemplate cs = \<lparr>t_lines = Some (lines cs), t_shapes = Some (shapes cs)\<rparr>"

text \<open>
  The effect "Apply history state to canvas (for undo/redo)". The comparison of the two
  \<open>JSON.stringify\<close> texts is taken as equality of the two values. \<open>restoreCanvas\<close> is
  its "Clear and restore canvas from history": \<open>clearCanvas()\<close>, then
  \<open>insertTemplate(canvasState)\<close> unless both arrays are empty.
\<close>

definition restoreCanvas :: "Props \<Rightarrow> (nat \<Rightarrow> string) \<Rightarrow> DrawingState \<Rightarrow> Canvas \<Rightarrow> Canvas" where
  "restoreCanvas props genId canvasState c =
     (if 0 < length (lines canvasState) \<or> 0 < length (shapes canvasState)
      then insertTemplate props genId (asTemplate canvasState) (clearCanvas c)
      else clearCanvas c)"

definition applyHistoryEffect :: "Props \<Rightarrow> (nat \<Rightarrow> string) \<Rightarrow> Bridge \<Rightarrow> Bridge" where
  "applyHistoryEffect props genId b =
     (case state (hist b) of
        None \<Rightarrow> b
      | Some canvasState \<Rightarrow>
          (case canvasRef b of
             None \<Rightarrow> b
           | Some c \<Rightarrow>
               if isApplyingHistory b then b
               else if getCanvasData c \<noteq> canvasState then
                 b\<lparr>canvasRef := Some (restoreCanvas props genId canvasState c),
                   isApplyingHistory := True\<rparr>
               else b))"

text \<open>The callback of the 500 ms interval of the effect "Sync canvas state changes with
  parent"; the interval exists only while \<open>canvasState\<close> is there and the flag is down.\<close>

definition pollCallback :: "nat \<Rightarrow> Bridge \<Rightarrow> Bridge" where
  "pollCallback N b =
     (case state (hist b) of
        None \<Rightarrow> b
      | Some canvasState \<Rightarrow>
          if isApplyingHistory b then b
          else (case canvasRef b of
             None \<Rightarrow> b
           | Some c \<Rightarrow>
               if getCanvasData c \<noteq> canvasState
               then b\<lparr>hist := push N (getCanvasData c) (hist b)\<rparr>
               else b))"

text \<open>
  The file holds a second variant of the wrapper that has neither the flag nor the apply
  effect: history is never applied to the canvas there, and the interval's callback runs
  whenever the canvas is mounted. An absent \<open>canvasState\<close> compares unequal to every
  canvas.
\<close>

definition pollCallbackUnflagged :: "nat \<Rightarrow> Bridge \<Rightarrow> Bridge" where
  "pollCallbackUnflagged N b =
     (case canvasRef b of
        None \<Rightarrow> b
      | Some c \<Rightarrow>
          if Some (getCanvasData c) \<noteq> state (hist b)
          then b\<lparr>hist := push N (getCanvasData c) (hist b)\<rparr>
          else b)"

text \<open>The wrapper's \<open>insertTemplate\<close>, and the callback of the timer it sets.\<close>

definition wrapperInsertTemplate :: "Props \<Rightarrow> (nat \<Rightarrow> string) \<Rightarrow> TemplateData \<Rightarrow> Bridge \<Rightarrow> Bridge" where
  "wrapperInsertTemplate props genId data b =
     (case canvasRef b of
        None \<Rightarrow> b
      | Some c \<Rightarrow> b\<lparr>canvasRef := Some (insertTemplate props genId data c),
                     insertTimers := insertTimers b + 1\<rparr>)"

definition insertTimerCallback :: "nat \<Rightarrow> Bridge \<Rightarrow> Bridge" where
  "insertTimerCallback N b =
     (case canvasRef b of
        None \<Rightarrow> b
      | Some c \<Rightarrow> b\<lparr>hist := push N (getCanvasData c) (hist b)\<rparr>)"

text \<open>
  What can happen to the wrapper, one event at a time. After an event that changes
  \<open>canvasState\<close> or the flag the component renders again and the apply effect runs. The
  undo and redo buttons of the page are disabled when \<open>canUndo\<close> or \<open>canRedo\<close> is false.
\<close>

datatype Event =
  UndoClick | RedoClick | ApplyingTimeout | PollTick | InsertTemplate TemplateData | InsertTimeout

fun step :: "Props \<Rightarrow> nat \<Rightarrow> (nat \<Rightarrow> string) \<Rightarrow> Bridge \<Rightarrow> Event \<Rightarrow> Bridge" where
  "step props N genId b UndoClick =
     (if canUndo (hist b)
      then applyHistoryEffect props genId (b\<lparr>hist := undo (hist b)\<rparr>)
      else b)"
| "step props N genId b RedoClick =
     (if canRedo (hist b)
      then applyHistoryEffect props genId (b\<lparr>hist := redo (hist b)\<rparr>)
      else b)"
| "step props N genId b ApplyingTimeout =
     (if isApplyingHistory b
      then applyHistoryEffect props genId (b\<lparr>isApplyingHistory := False\<rparr>)
      else b)"
| "step props N genId b PollTick = applyHistoryEffect props genId (pollCallback N b)"
| "step props N genId b (InsertTemplate data) = wrapperInsertTemplate props genId data b"
| "step props N genId b InsertTimeout =
     (if insertTimers b = 0 then b
      else applyHistoryEffect props genId
             (insertTimerCallback N (b\<lparr>insertTimers := insertTimers b - 1\<rparr>)))"

text \<open>A run of events from time \<open>t\<close>; \<open>genIds t\<close> generates the identifiers at time \<open>t\<close>.\<close>

fun run :: "Props \<Rightarrow> nat \<Rightarrow> (nat \<Rightarrow> nat \<Rightarrow> string) \<Rightarrow> nat \<Rightarrow> Bridge \<Rightarrow> Event list \<Rightarrow> Bridge" where
  "run props N genIds t b [] = b"
| "run props N genIds t b (e # es) = run props N genIds (Suc t) (step props N (genIds t) b e) es"

text \<open>
  The events on the variant of the wrapper without the flag. It has no apply effect and
  no timer of the flag: an undo or redo only moves the cursor, the canvas stays as it
  is, and the poll is \<open>pollCallbackUnflagged\<close>. Its \<open>insertTemplate\<close> and the timer of
  that are those of the other variant.
\<close>

fun stepUnflagged :: "Props \<Rightarrow> nat \<Rightarrow> (nat \<Rightarrow> string) \<Rightarrow> Bridge \<Rightarrow> Event \<Rightarrow> Bridge" where
  "stepUnflagged props N genId b UndoClick =
     (if canUndo (hist b) then b\<lparr>hist := undo (hist b)\<rparr> else b)"
| "stepUnflagged props N genId b RedoClick =
     (if canRedo (hist b) then b\<lparr>hist := redo (hist b)\<rparr> else b)"
| "stepUnflagged props N genId b ApplyingTimeout = b"
| "stepUnflagged props N genId b PollTick = pollCallbackUnflagged N b"
| "stepUnflagged props N genId b (InsertTemplate data) = wrapperInsertTemplate props genId data b"
| "stepUnflagged props N genId b InsertTimeout =
     (if insertTimers b = 0 then b
      else insertTimerCallback N (b\<lparr>insertTimers := insertTimers b - 1\<rparr>))"

fun runUnflagged :: "Props \<Rightarrow> nat \<Rightarrow> (nat \<Rightarrow> nat \<Rightarrow> string) \<Rightarrow> nat \<Rightarrow> Bridge \<Rightarrow> Event list \<Rightarrow> Bridge" where
  "runUnflagged props N genIds t b [] = b"
| "runUnflagged props N genIds t b (e # es) =
     runUnflagged props N genIds (Suc t) (stepUnflagged props N (genIds t) b e) es"

text \<open>The canvas shows the history's state, or a restore is under way.\<close>

definition inSync :: "Bridge \<Rightarrow> bool" where
  "inSync b =
     (case state (hist b) of
        None \<Rightarrow> True
      | Some canvasState \<Rightarrow>
          (case canvasRef b of
             None \<Rightarrow> True
           | Some c \<Rightarrow> isApplyingHistory b \<or> getCanvasData c = canvasState))"

text \<open>The two timers of the wrapper: the reset of the flag and the poll.\<close>

definition isTimerEvent :: "Event \<Rightarrow> bool" where
  "isTimerEvent e = (e = ApplyingTimeout \<or> e = PollTick)"

text \<open>A value that \<open>||\<close> keeps: a non-empty string, a non-zero number. A shape has its
  style when \<open>insertTemplate\<close> would keep all four fields it fills in.\<close>

definition truthyString :: "string option \<Rightarrow> bool" where
  "truthyString v = (case v of None \<Rightarrow> False | Some s \<Rightarrow> s \<noteq> [])"

definition truthyNumber :: "real option \<Rightarrow> bool" where
  "truthyNumber v = (case v of None \<Rightarrow> False | Some r \<Rightarrow> r \<noteq> 0)"

definition hasStyle :: "ShapeData \<Rightarrow> bool" where
  "hasStyle s = (truthyString (s_id s) \<and> truthyString (s_stroke s) \<and>
                 truthyNumber (s_strokeWidth s) \<and> truthyString (s_fill s))"

text \<open>What the canvas shows after \<open>restoreCanvas\<close>.\<close>

definition restored :: "Props \<Rightarrow> (nat \<Rightarrow> string) \<Rightarrow> DrawingState \<Rightarrow> DrawingState" where
  "restored props genId cs = \<lparr>lines = lines cs, shapes = newShapes props genId (shapes cs)\<rparr>"

text \<open>\<open>k\<close> undos, then \<open>k\<close> redos, each click given the time to settle.\<close>

definition undoRedoEvents :: "nat \<Rightarrow> Event list" where
  "undoRedoEvents k =
     concat (replicate k [UndoClick, ApplyingTimeout]) @
     concat (replicate k [RedoClick, ApplyingTimeout])"

text \<open>The events of such a run, and what each does to the history.\<close>

definition isNavEvent :: "Event \<Rightarrow> bool" where
  "isNavEvent e = (e = UndoClick \<or> e = RedoClick \<or> e = ApplyingTimeout)"

fun navHist :: "'a History \<Rightarrow> Event \<Rightarrow> 'a History" where
  "navHist h UndoClick = undo h"
| "navHist h RedoClick = redo h"
| "navHist h e = h"

text \<open>Generated identifiers that do not depend on the time.\<close>

definition clockIds :: "nat \<Rightarrow> nat \<Rightarrow> string" where
  "clockIds t = freshButtonIds"

definition emptyState :: DrawingState where
  "emptyState = \<lparr>lines = [], shapes = []\<rparr>"

definition buttonState :: DrawingState where
  "buttonState = \<lparr>lines = [], shapes = [buttonRect]\<rparr>"

text \<open>The shape that \<open>handleTextSubmit\<close> appends for the text "Hi" at (20, 20): it has no
  \<open>strokeWidth\<close>.\<close>

definition textShape :: ShapeData where
  "textShape = \<lparr>s_id = Some ''text-1'', s_type = Text, s_x = 20, s_y = 20,
     s_width = None, s_height = None, s_radius = None, s_text = Some ''Hi'',
     s_fill = Some ''#000000'', s_stroke = Some ''#000000'', s_strokeWidth = None\<rparr>"

definition textState :: DrawingState where
  "textState = \<lparr>lines = [], shapes = [textShape]\<rparr>"

definition textCanvas :: Canvas where
  "textCanvas = initialCanvas\<lparr>shapes := [textShape]\<rparr>"

text \<open>The wrapper at rest over a history built by pushing the given states.\<close>

definition bridgeAt :: "DrawingState list \<Rightarrow> Canvas \<Rightarrow> Bridge" where
  "bridgeAt ss c = \<lparr>hist = pushAll maxHistory ss emptyHistory, canvasRef = Some c,
     isApplyingHistory = False, insertTimers = 0\<rparr>"

text \<open>The specification's fragment
  \<open>{shapes:[{type:"rectangle",x:10,y:10,width:50,height:20}]}\<close>, and the wrapper as the
  page starts it.\<close>

definition specFragment :: TemplateData where
  "specFragment = \<lparr>t_lines = None, t_shapes = Some
     [\<lparr>s_id = None, s_type = Rectangle, s_x = 10, s_y = 10,
       s_width = Some 50, s_height = Some 20, s_radius = None, s_text = None,
       s_fill = None, s_stroke = None, s_strokeWidth = None\<rparr>]\<rparr>"

definition startBridge :: Bridge where
  "startBridge = \<lparr>hist = useHistory emptyState, canvasRef = Some initialCanvas,
     isApplyingHistory = False, insertTimers = 0\<rparr>"

text \<open>The fragment's rectangle once inserted, and the state with it alone.\<close>

definition insertedRect :: ShapeData where
  "insertedRect = \<lparr>s_id = Some ''shape-2-0.7'', s_type = Rectangle, s_x = 10, s_y = 10,
     s_width = Some 50, s_height = Some 20, s_radius = None, s_text = None,
     s_fill = Some ''transparent'', s_stroke = Some ''#000000'', s_strokeWidth = Some 2\<rparr>"

definition insertedState :: DrawingState where
  "insertedState = \<lparr>lines = [], shapes = [insertedRect]\<rparr>"

text \<open>The wrapper after undo and redo over the text state: the history shows the text
  state, the canvas its restored form, and the flag is up.\<close>

definition stuckBridge :: Bridge where
  "stuckBridge = \<lparr>hist = \<lparr>entries = [emptyState, textState], cursor = 1\<rparr>,
     canvasRef = Some (initialCanvas\<lparr>shapes := [textShape\<lparr>s_strokeWidth := Some 2\<rparr>]\<rparr>),
     isApplyingHistory = True, insertTimers = 0\<rparr>"

text \<open>The button rectangle with the stroke across it, as a state of the history.\<close>

definition strokeState :: DrawingState where
  "strokeState = \<lparr>lines = [strokeAcross], shapes = [buttonRect]\<rparr>"

text \<open>
  A session on the wrapper without the flag: the button is inserted, the stroke drawn
  and then deleted, each edit pushed by a poll; the canvas shows the button.
\<close>

definition editedBridge :: Bridge where
  "editedBridge = bridgeAt [emptyState, buttonState, strokeState, buttonState] buttonCanvas"

section \<open>Arrays and references\<close>

text \<open>
  \<open>getCanvasData\<close> builds the object \<open>{ lines, shapes, width, height }\<close> from the
  component's state variables, which hold references to arrays. To speak of copies, the
  arrays live in a store: \<open>lineArrays\<close> and \<open>shapeArrays\<close> give the contents at each
  reference and \<open>nextRef\<close> is the first reference not yet allocated. \<open>linesRef\<close> and
  \<open>shapesRef\<close> are the component's two state variables.
\<close>

record Store =
  lineArrays :: "nat \<Rightarrow> LineData list"
  shapeArrays :: "nat \<Rightarrow> ShapeData list"
  nextRef :: nat
  linesRef :: nat
  shapesRef :: nat

text \<open>What \<open>getCanvasData()\<close> returns: the two references held by the state variables.\<close>

record CanvasDataRefs =
  linesOf :: nat
  shapesOf :: nat

definition getCanvasDataRefs :: "Store \<Rightarrow> CanvasDataRefs" where
  "getCanvasDataRefs st = \<lparr>linesOf = linesRef st, shapesOf = shapesRef st\<rparr>"

text \<open>Reading a returned object, and reading the live state, through the store.\<close>

definition readData :: "Store \<Rightarrow> CanvasDataRefs \<Rightarrow> DrawingState" where
  "readData st d = \<lparr>lines = lineArrays st (linesOf d), shapes = shapeArrays st (shapesOf d)\<rparr>"

definition liveData :: "Store \<Rightarrow> DrawingState" where
  "liveData st = \<lparr>lines = lineArrays st (linesRef st), shapes = shapeArrays st (shapesRef st)\<rparr>"

text \<open>
  Every change the component makes to its drawing is a call \<open>setLines(v)\<close> or
  \<open>setShapes(v)\<close> whose argument is an array newly built from the current one (by spread,
  \<open>concat\<close>, \<open>filter\<close> or \<open>map\<close>): \<open>f\<close> computes the new contents from the old, the array
  is allocated at \<open>nextRef\<close>, and the state variable is pointed at it.
\<close>

definition setLines :: "(LineData list \<Rightarrow> LineData list) \<Rightarrow> Store \<Rightarrow> Store" where
  "setLines f st =
     st\<lparr>lineArrays := (lineArrays st)(nextRef st := f (lineArrays st (linesRef st))),
        linesRef := nextRef st,
        nextRef := Suc (nextRef st)\<rparr>"

definition setShapes :: "(ShapeData list \<Rightarrow> ShapeData list) \<Rightarrow> Store \<Rightarrow> Store" where
  "setShapes f st =
     st\<lparr>shapeArrays := (shapeArrays st)(nextRef st := f (shapeArrays st (shapesRef st))),
        shapesRef := nextRef st,
        nextRef := Suc (nextRef st)\<rparr>"

text \<open>A sequence of such calls.\<close>

datatype Edit = SetLines "LineData list \<Rightarrow> LineData list" | SetShapes "ShapeData list \<Rightarrow> ShapeData list"

fun applyEdit :: "Store \<Rightarrow> Edit \<Rightarrow> Store" where
  "applyEdit st (SetLines f) = setLines f st"
| "applyEdit st (SetShapes f) = setShapes f st"

definition applyEdits :: "Edit list \<Rightarrow> Store \<Rightarrow> Store" where
  "applyEdits es st = foldl applyEdit st es"

text \<open>What a holder of the returned object can do to it: change one of its arrays in
  place (\<open>data.lines.push(x)\<close>, \<open>data.shapes.length = 0\<close>, ...).\<close>

definition mutateLinesArray :: "nat \<Rightarrow> (LineData list \<Rightarrow> LineData list) \<Rightarrow> Store \<Rightarrow> Store" where
  "mutateLinesArray r f st = st\<lparr>lineArrays := (lineArrays st)(r := f (lineArrays st r))\<rparr>"

definition mutateShapesArray :: "nat \<Rightarrow> (ShapeData list \<Rightarrow> ShapeData list) \<Rightarrow> Store \<Rightarrow> Store" where
  "mutateShapesArray r f st = st\<lparr>shapeArrays := (shapeArrays st)(r := f (shapeArrays st r))\<rparr>"

text \<open>The state variables point at allocated arrays.\<close>

definition allocated :: "Store \<Rightarrow> bool" where
  "allocated st = (linesRef st < nextRef st \<and> shapesRef st < nextRef st)"

text \<open>The store of a canvas that shows the button rectangle with the stroke across it.\<close>

definition exampleStore :: Store where
  "exampleStore = \<lparr>lineArrays = (\<lambda>r. [])(0 := [strokeAcross]),
     shapeArrays = (\<lambda>r. [])(1 := [buttonRect]),
     nextRef = 2, linesRef = 0, shapesRef = 1\<rparr>"

section \<open>Facts about the history engine\<close>

lemma push_entries:
  "entries (push N s h) =
     (if N < length (take (cursor h + 1) (entries h)) + 1
      then tl (take (cursor h + 1) (entries h) @ [s])
      else take (cursor h + 1) (entries h) @ [s])"
  by (simp add: push_def Let_def)

lemma push_cursor:
  "cursor (push N s h) =
     (if N < length (take (cursor h + 1) (entries h)) + 1
      then length (take (cursor h + 1) (entries h)) - 1
      else length (take (cursor h + 1) (entries h)))"
  by (simp add: push_def Let_def)

lemma push_length_le:
  assumes "length (entries h) \<le> N"
  shows "length (entries (push N s h)) \<le> N"
  using assms by (simp add: push_entries min_def)

lemma tl_snoc_empty: "tl (xs @ [s]) = [] \<longleftrightarrow> xs = []"
  by (cases xs) simp_all

lemma push_cursorValid: "cursorValid (push N s h)"
  by (auto simp: cursorValid_def push_entries push_cursor min_def tl_snoc_empty
      split: if_splits)

lemma undo_entries [simp]: "entries (undo h) = entries h"
  by (simp add: undo_def)

lemma redo_entries [simp]: "entries (redo h) = entries h"
  by (simp add: redo_def)

lemma undo_cursorValid: "cursorValid h \<Longrightarrow> cursorValid (undo h)"
  by (auto simp: cursorValid_def undo_def canUndo_def)

lemma redo_cursorValid: "cursorValid h \<Longrightarrow> cursorValid (redo h)"
  by (auto simp: cursorValid_def redo_def canRedo_def)

lemma applyOp_inv:
  assumes "length (entries h) \<le> N" "cursorValid h"
  shows "length (entries (applyOp N h op)) \<le> N \<and> cursorValid (applyOp N h op)"
  using assms
  by (cases op) (simp_all add: push_length_le push_cursorValid undo_cursorValid redo_cursorValid)

lemma runOps_inv:
  assumes "length (entries h) \<le> N" "cursorValid h"
  shows "length (entries (runOps N ops h)) \<le> N \<and> cursorValid (runOps N ops h)"
  using assms unfolding runOps_def
proof (induction ops arbitrary: h)
  case Nil
  then show ?case by simp
next
  case (Cons op ops)
  from applyOp_inv [OF Cons.prems] Cons.IH show ?case by simp
qed

lemma pushAll_snoc: "pushAll N (ss @ [s]) h = push N s (pushAll N ss h)"
  by (simp add: pushAll_def)

lemma pushAll_within_capacity:
  assumes "length ss \<le> N"
  shows "entries (pushAll N ss emptyHistory) = ss \<and>
         cursor (pushAll N ss emptyHistory) = length ss - 1"
  using assms
proof (induction ss rule: rev_induct)
  case Nil
  then show ?case by (simp add: pushAll_def emptyHistory_def)
next
  case (snoc s ss)
  then have IH: "entries (pushAll N ss emptyHistory) = ss"
    "cursor (pushAll N ss emptyHistory) = length ss - 1"
    by simp_all
  have step: "pushAll N (ss @ [s]) emptyHistory = push N s (pushAll N ss emptyHistory)"
    by (rule pushAll_snoc)
  have kept: "take (cursor (pushAll N ss emptyHistory) + 1) (entries (pushAll N ss emptyHistory)) = ss"
    by (simp add: IH)
  from snoc.prems show ?case
    unfolding step push_entries push_cursor kept by simp
qed

lemma push_state: "N \<noteq> 0 \<Longrightarrow> state (push N s h) = Some s"
  by (auto simp: state_def push_entries push_cursor min_def nth_append nth_tl tl_snoc_empty
           split: if_splits)

lemma nav_keeps_entries:
  assumes "list_all isNav ops"
  shows "entries (runOps N ops h) = entries h"
  using assms unfolding runOps_def
proof (induction ops arbitrary: h)
  case Nil
  then show ?case by simp
next
  case (Cons op ops)
  then show ?case by (cases op) (simp_all add: isNav_def)
qed

lemma state_in_entries: "state h = Some e \<Longrightarrow> e \<in> set (entries h)"
  by (auto simp: state_def split: if_splits)

lemma cursorValid_state: "cursorValid h \<Longrightarrow> entries h \<noteq> [] \<Longrightarrow> \<exists>e. state h = Some e"
  by (simp add: cursorValid_def state_def)

text \<open>
  Claim C4. A push while the cursor is not at the last index removes every entry after the
  cursor, appends the new state and leaves the cursor on it, the new last index. From
  then on undo and redo only ever show an entry of the truncated sequence: with entries
  A, B, C, D and the cursor at B, pushing E gives A, B, E with the cursor at E, and C and D
  cannot be reached.
\<close>

theorem push_mid_sequence_truncates:
  assumes mid: "cursor h + 1 < length (entries h)"
    and cap: "length (entries h) \<le> N"
  shows "entries (push N s h) = take (cursor h + 1) (entries h) @ [s] \<and>
         cursor (push N s h) = cursor h + 1 \<and>
         cursor (push N s h) + 1 = length (entries (push N s h)) \<and>
         state (push N s h) = Some s \<and>
         (\<forall>ops. list_all isNav ops \<longrightarrow>
            (\<exists>e. state (runOps N ops (push N s h)) = Some e \<and>
                 e \<in> set (take (cursor h + 1) (entries h) @ [s])))"
proof -
  from mid cap have len: "length (take (cursor h + 1) (entries h)) + 1 \<le> N"
    by simp
  then have noDrop: "\<not> N < length (take (cursor h + 1) (entries h)) + 1"
    by simp
  have E: "entries (push N s h) = take (cursor h + 1) (entries h) @ [s]"
    unfolding push_entries using noDrop by simp
  have C: "cursor (push N s h) = cursor h + 1"
    unfolding push_cursor using noDrop mid by simp
  have L: "cursor (push N s h) + 1 = length (entries (push N s h))"
    unfolding E C using mid by simp
  from len have "N \<noteq> 0" by simp
  then have S: "state (push N s h) = Some s"
    by (simp add: push_state)
  have R: "\<exists>e. state (runOps N ops (push N s h)) = Some e \<and>
              e \<in> set (take (cursor h + 1) (entries h) @ [s])"
    if nav: "list_all isNav ops" for ops
  proof -
    have ent: "entries (runOps N ops (push N s h)) = take (cursor h + 1) (entries h) @ [s]"
      using nav_keeps_entries [OF nav] E by simp
    have "cursorValid (runOps N ops (push N s h))"
      using runOps_inv [OF push_length_le [OF cap] push_cursorValid] by blast
    then obtain e where e: "state (runOps N ops (push N s h)) = Some e"
      using cursorValid_state ent by fastforce
    with state_in_entries [OF e] ent show ?thesis by simp
  qed
  from E C L S R show ?thesis by blast
qed

text \<open>The specification's example of claim C4, at the default capacity.\<close>

theorem push_mid_sequence_truncates_witness:
  "cursor exampleABCD + 1 < length (entries exampleABCD) \<and>
   length (entries exampleABCD) \<le> maxHistory \<and>
   state exampleABCD = Some ''B'' \<and>
   entries (push maxHistory ''E'' exampleABCD) = [''A'', ''B'', ''E''] \<and>
   cursor (push maxHistory ''E'' exampleABCD) = 2 \<and>
   state (push maxHistory ''E'' exampleABCD) = Some ''E'' \<and>
   ''C'' \<notin> set (entries (push maxHistory ''E'' exampleABCD)) \<and>
   ''D'' \<notin> set (entries (push maxHistory ''E'' exampleABCD))"
proof -
  have mid: "cursor exampleABCD + 1 < length (entries exampleABCD)"
    by (simp add: exampleABCD_def)
  have cap: "length (entries exampleABCD) \<le> maxHistory"
    by (simp add: exampleABCD_def maxHistory_def)
  have st: "state exampleABCD = Some ''B''"
    by (simp add: exampleABCD_def state_def)
  from push_mid_sequence_truncates [OF mid cap, of "''E''"]
  have "entries (push maxHistory ''E'' exampleABCD) = take (cursor exampleABCD + 1) (entries exampleABCD) @ [''E'']"
    and "cursor (push maxHistory ''E'' exampleABCD) = cursor exampleABCD + 1"
    and "state (push maxHistory ''E'' exampleABCD) = Some ''E''"
    by blast+
  then show ?thesis using mid cap st by (simp add: exampleABCD_def)
qed

text \<open>
  Claim C5. Whatever operations are run, a history that holds at most \<open>N\<close> entries keeps
  holding at most \<open>N\<close>, and so does every history grown from the empty one. A push onto a
  full history whose cursor is at the end drops index \<open>0\<close> and leaves the cursor where it
  was (advanced by the append, decremented by the drop); pushing \<open>N + 1\<close> entries leaves
  exactly \<open>N\<close>, the first of which is what was the second.
\<close>

theorem history_capacity_bound:
  "(length (entries h) \<le> N \<longrightarrow> length (entries (runOps N ops h)) \<le> N) \<and>
   length (entries (runOps N ops emptyHistory)) \<le> N \<and>
   (length (entries h) = N \<and> cursor h + 1 = N \<longrightarrow>
      entries (push N s h) = tl (entries h) @ [s] \<and>
      cursor (push N s h) = cursor h \<and>
      length (entries (push N s h)) = N \<and>
      (2 \<le> N \<longrightarrow> entries (push N s h) ! 0 = entries h ! 1)) \<and>
   (length ss = N \<longrightarrow>
      entries (pushAll N (ss @ [s]) emptyHistory) = tl (ss @ [s]) \<and>
      length (entries (pushAll N (ss @ [s]) emptyHistory)) = N \<and>
      (2 \<le> N \<longrightarrow> entries (pushAll N (ss @ [s]) emptyHistory) ! 0 = ss ! 1))"
proof -
  have inv: "length (entries (runOps N ops g)) \<le> N" if "length (entries g) \<le> N" for g :: "'a History"
    using that unfolding runOps_def
  proof (induction ops arbitrary: g)
    case Nil
    then show ?case by simp
  next
    case (Cons op ops)
    have "length (entries (applyOp N g op)) \<le> N"
      using Cons.prems by (cases op) (simp_all add: push_length_le)
    then show ?case using Cons.IH by simp
  qed
  have A: "length (entries h) \<le> N \<longrightarrow> length (entries (runOps N ops h)) \<le> N"
    using inv by blast
  have B: "length (entries (runOps N ops emptyHistory)) \<le> N"
    by (rule inv) (simp add: emptyHistory_def)
  have full: "entries (push N s g) = tl (entries g) @ [s] \<and> cursor (push N s g) = cursor g \<and>
      length (entries (push N s g)) = N \<and> (2 \<le> N \<longrightarrow> entries (push N s g) ! 0 = entries g ! 1)"
    if "length (entries g) = N" "cursor g + 1 = N" for g :: "'a History"
  proof (cases "entries g")
    case Nil
    with that show ?thesis by simp
  next
    case (Cons a as)
    with that show ?thesis
      by (auto simp: push_entries push_cursor nth_append nth_tl)
  qed
  have D: "entries (pushAll N (ss @ [s]) emptyHistory) = tl (ss @ [s]) \<and>
      length (entries (pushAll N (ss @ [s]) emptyHistory)) = N \<and>
      (2 \<le> N \<longrightarrow> entries (pushAll N (ss @ [s]) emptyHistory) ! 0 = ss ! 1)"
    if len: "length ss = N"
  proof -
    from len pushAll_within_capacity [of ss N]
    have E: "entries (pushAll N ss emptyHistory) = ss"
      and C: "cursor (pushAll N ss emptyHistory) = length ss - 1"
      by simp_all
    have kept: "take (cursor (pushAll N ss emptyHistory) + 1) (entries (pushAll N ss emptyHistory)) = ss"
      by (simp add: E C)
    have ent: "entries (pushAll N (ss @ [s]) emptyHistory) = tl (ss @ [s])"
      unfolding pushAll_snoc push_entries kept using len by simp
    show ?thesis
      unfolding ent using len by (cases ss) (auto simp: nth_append nth_tl)
  qed
  from A B full D show ?thesis by blast
qed

text \<open>Claim C5 at the default capacity of 50 entries.\<close>

theorem history_capacity_bound_witness:
  "length (entries (useHistory (0::nat))) \<le> maxHistory \<and>
   length (entries (runOps maxHistory [Push 1, Push 2, Undo, Push 3, Redo] (useHistory (0::nat)))) \<le> maxHistory \<and>
   length [0 ..< maxHistory] = maxHistory \<and>
   length (entries (pushAll maxHistory ([0 ..< maxHistory] @ [maxHistory]) emptyHistory)) = maxHistory \<and>
   entries (pushAll maxHistory ([0 ..< maxHistory] @ [maxHistory]) emptyHistory) ! 0 = 1"
proof -
  have a: "length (entries (useHistory (0::nat))) \<le> maxHistory"
    by (simp add: useHistory_def maxHistory_def)
  have l: "length [0 ..< maxHistory] = maxHistory"
    by simp
  have two: "2 \<le> maxHistory"
    by (simp add: maxHistory_def)
  have n: "[0 ..< maxHistory] ! 1 = 1"
    by (simp add: maxHistory_def)
  note T = history_capacity_bound [of "useHistory (0::nat)" maxHistory
      "[Push 1, Push 2, Undo, Push 3, Redo]" maxHistory "[0 ..< maxHistory]"]
  from T a have b: "length (entries (runOps maxHistory [Push 1, Push 2, Undo, Push 3, Redo] (useHistory (0::nat)))) \<le> maxHistory"
    by blast
  from T l two have c: "length (entries (pushAll maxHistory ([0 ..< maxHistory] @ [maxHistory]) emptyHistory)) = maxHistory"
    and d: "entries (pushAll maxHistory ([0 ..< maxHistory] @ [maxHistory]) emptyHistory) ! 0 = [0 ..< maxHistory] ! 1"
    by blast+
  from a b l c d n show ?thesis by simp
qed

section \<open>Facts about the bin tool\<close>

lemma removeAt_offset:
  "map snd (filter (\<lambda>(idx, _). idx \<noteq> n + i) (enumerate n xs)) = take i xs @ drop (Suc i) xs"
proof (induction xs arbitrary: n i)
  case Nil
  then show ?case by simp
next
  case (Cons x xs)
  show ?case
  proof (cases i)
    case 0
    have "filter (\<lambda>(idx, _). idx \<noteq> n) (enumerate (Suc n) xs) = enumerate (Suc n) xs"
      by (rule filter_True) (auto simp: in_set_enumerate_eq)
    with 0 show ?thesis by simp
  next
    case (Suc k)
    with Cons.IH [of "Suc n" k] show ?thesis by simp
  qed
qed

lemma removeAt_eq: "removeAt i xs = take i xs @ drop (Suc i) xs"
  using removeAt_offset [of 0 i xs] by (simp add: removeAt_def)

lemma length_removeAt: "i < length xs \<Longrightarrow> length (removeAt i xs) = length xs - 1"
  by (simp add: removeAt_eq)

lemma findHitShape_Some:
  "findHitShape pos ss n = Some i \<Longrightarrow>
     i < n \<and> hitShape pos (ss ! i) \<and> (\<forall>m. i < m \<and> m < n \<longrightarrow> \<not> hitShape pos (ss ! m))"
proof (induction n)
  case 0
  then show ?case by simp
next
  case (Suc n)
  show ?case
  proof (cases "hitShape pos (ss ! n)")
    case True
    with Suc.prems show ?thesis by auto
  next
    case False
    with Suc.prems have "findHitShape pos ss n = Some i" by simp
    from Suc.IH [OF this] False show ?thesis
      by (auto simp: less_Suc_eq)
  qed
qed

lemma findHitShape_None:
  "findHitShape pos ss n = None \<longleftrightarrow> (\<forall>m < n. \<not> hitShape pos (ss ! m))"
  by (induction n) (auto simp: less_Suc_eq)

lemma findHitLine_Some:
  "findHitLine pos ls n = Some i \<Longrightarrow>
     i < n \<and> hitLine pos (ls ! i) \<and> (\<forall>m. i < m \<and> m < n \<longrightarrow> \<not> hitLine pos (ls ! m))"
proof (induction n)
  case 0
  then show ?case by simp
next
  case (Suc n)
  show ?case
  proof (cases "hitLine pos (ls ! n)")
    case True
    with Suc.prems show ?thesis by auto
  next
    case False
    with Suc.prems have "findHitLine pos ls n = Some i" by simp
    from Suc.IH [OF this] False show ?thesis
      by (auto simp: less_Suc_eq)
  qed
qed

lemma findHitLine_None:
  "findHitLine pos ls n = None \<longleftrightarrow> (\<forall>m < n. \<not> hitLine pos (ls ! m))"
  by (induction n) (auto simp: less_Suc_eq)

lemma findHitShape_hit:
  assumes "i < n" "hitShape pos (ss ! i)"
  shows "\<exists>k. findHitShape pos ss n = Some k \<and> i \<le> k"
proof (cases "findHitShape pos ss n")
  case None
  with assms show ?thesis by (simp add: findHitShape_None)
next
  case (Some k)
  from findHitShape_Some [OF Some] assms have "i \<le> k"
    by (meson not_le_imp_less)
  with Some show ?thesis by simp
qed


lemma hitSegments_iff:
  "hitSegments pos reach ps \<longleftrightarrow>
     (\<exists>j. 2 * j + 3 < length ps \<and>
          hitSegment pos reach (ps ! (2 * j)) (ps ! (2 * j + 1)) (ps ! (2 * j + 2)) (ps ! (2 * j + 3)))"
proof (induction pos reach ps rule: hitSegments.induct)
  case (1 pos reach x1 y1 x2 y2 rest)
  let ?ps = "x1 # y1 # x2 # y2 # rest"
  let ?H = "\<lambda>qs j. hitSegment pos reach (qs ! (2 * j)) (qs ! (2 * j + 1)) (qs ! (2 * j + 2)) (qs ! (2 * j + 3))"
  have shift: "?H ?ps (Suc j) = ?H (x2 # y2 # rest) j" for j
    by simp
  have len: "2 * Suc j + 3 < length ?ps \<longleftrightarrow> 2 * j + 3 < length (x2 # y2 # rest)" for j
    by auto
  have "(\<exists>j. 2 * j + 3 < length ?ps \<and> ?H ?ps j) \<longleftrightarrow>
        ?H ?ps 0 \<or> (\<exists>j. 2 * Suc j + 3 < length ?ps \<and> ?H ?ps (Suc j))"
  proof
    assume "\<exists>j. 2 * j + 3 < length ?ps \<and> ?H ?ps j"
    then obtain j where j: "2 * j + 3 < length ?ps" "?H ?ps j" by blast
    show "?H ?ps 0 \<or> (\<exists>j. 2 * Suc j + 3 < length ?ps \<and> ?H ?ps (Suc j))"
    proof (cases j)
      case 0
      with j show ?thesis by simp
    next
      case (Suc k)
      with j show ?thesis by blast
    qed
  next
    assume "?H ?ps 0 \<or> (\<exists>j. 2 * Suc j + 3 < length ?ps \<and> ?H ?ps (Suc j))"
    then show "\<exists>j. 2 * j + 3 < length ?ps \<and> ?H ?ps j"
    proof
      assume "?H ?ps 0"
      then have "2 * 0 + 3 < length ?ps \<and> ?H ?ps 0" by simp
      then show ?thesis by blast
    next
      assume "\<exists>j. 2 * Suc j + 3 < length ?ps \<and> ?H ?ps (Suc j)"
      then show ?thesis by blast
    qed
  qed
  also have "\<dots> \<longleftrightarrow> hitSegment pos reach x1 y1 x2 y2 \<or>
        (\<exists>j. 2 * j + 3 < length (x2 # y2 # rest) \<and> ?H (x2 # y2 # rest) j)"
    unfolding shift len by simp
  finally show ?case using "1.IH" by simp
qed (auto)

lemma sqrt_zero_iff_same_point:
  "sqrt ((x2 - x1)\<^sup>2 + (y2 - y1)\<^sup>2) = 0 \<longleftrightarrow> x1 = x2 \<and> y1 = (y2::real)"
  by (auto simp: sum_power2_eq_zero_iff)

lemma clamped_projection_least:
  fixes a b dx dy t :: real
  assumes C: "0 < dx\<^sup>2 + dy\<^sup>2" and t: "0 \<le> t" "t \<le> 1"
  defines "B \<equiv> a * dx + b * dy"
  defines "ts \<equiv> max 0 (min 1 (B / (dx\<^sup>2 + dy\<^sup>2)))"
  shows "(a - ts * dx)\<^sup>2 + (b - ts * dy)\<^sup>2 \<le> (a - t * dx)\<^sup>2 + (b - t * dy)\<^sup>2"
proof -
  let ?C = "dx\<^sup>2 + dy\<^sup>2"
  have diff: "((a - t * dx)\<^sup>2 + (b - t * dy)\<^sup>2) - ((a - s * dx)\<^sup>2 + (b - s * dy)\<^sup>2)
      = (t - s) * (?C * (t + s) - 2 * B)" for s
    by (simp add: B_def power2_eq_square algebra_simps)
  have "0 \<le> (t - ts) * (?C * (t + ts) - 2 * B)"
  proof -
    consider "B \<le> 0" | "?C \<le> B" | "0 < B" "B < ?C" by linarith
    then show ?thesis
    proof cases
      case 1
      with C have "B / ?C \<le> 0" by (simp add: divide_le_0_iff)
      then have ts0: "ts = 0" by (simp add: ts_def)
      have "0 \<le> ?C * t" using C t by simp
      with 1 have "0 \<le> ?C * t - 2 * B" by linarith
      with t show ?thesis by (simp add: ts0)
    next
      case 2
      with C have "1 \<le> B / ?C" by (simp add: le_divide_eq)
      then have ts1: "ts = 1" by (simp add: ts_def)
      have "?C * t \<le> ?C" using C t by (simp add: mult_left_le)
      with 2 have "?C * (t + 1) - 2 * B \<le> 0" by (simp add: algebra_simps)
      moreover have "t - 1 \<le> 0" using t by simp
      ultimately show ?thesis unfolding ts1 by (simp add: mult_nonpos_nonpos)
    next
      case 3
      with C have "0 < B / ?C" "B / ?C < 1" by (simp_all add: divide_less_eq)
      then have tsm: "ts = B / ?C" by (simp add: ts_def)
      from C have "?C \<noteq> 0" by linarith
      then have "?C * (B / ?C) = B"
        by (rule nonzero_mult_div_cancel_left [of ?C B, simplified times_divide_eq_right [symmetric]])
      then have "?C * ts = B"
        by (simp only: tsm)
      then have "?C * (t + ts) - 2 * B = ?C * (t - ts)"
        by (simp only: distrib_left right_diff_distrib)
      then have "(t - ts) * (?C * (t + ts) - 2 * B) = ?C * (t - ts)\<^sup>2"
        by (simp add: power2_eq_square)
      with C show ?thesis by simp
    qed
  qed
  with diff [of ts] show ?thesis by linarith
qed

lemma segmentDist_least:
  assumes ne: "(x1, y1) \<noteq> (x2, y2)" and t: "0 \<le> t" "t \<le> 1"
  shows "segmentDist pos x1 y1 x2 y2
         \<le> sqrt ((fst pos - (x1 + t * (x2 - x1)))\<^sup>2 + (snd pos - (y1 + t * (y2 - y1)))\<^sup>2)"
proof -
  let ?dx = "x2 - x1" and ?dy = "y2 - y1"
  from ne have C: "0 < ?dx\<^sup>2 + ?dy\<^sup>2"
    by (auto simp: sum_power2_gt_zero_iff)
  then have len2: "(sqrt (?dx\<^sup>2 + ?dy\<^sup>2))\<^sup>2 = ?dx\<^sup>2 + ?dy\<^sup>2"
    by simp
  have eq: "p - (q + s * d) = (p - q) - s * d" for p q s d :: real
    by simp
  show ?thesis
    unfolding segmentDist_def Let_def len2 eq
    by (rule real_sqrt_le_mono) (rule clamped_projection_least [OF C t])
qed

lemma segmentDist_attained:
  "\<exists>t. 0 \<le> t \<and> t \<le> 1 \<and>
     segmentDist pos x1 y1 x2 y2
       = sqrt ((fst pos - (x1 + t * (x2 - x1)))\<^sup>2 + (snd pos - (y1 + t * (y2 - y1)))\<^sup>2)"
proof -
  let ?t = "max 0 (min 1 (((fst pos - x1) * (x2 - x1) + (snd pos - y1) * (y2 - y1)) /
              (sqrt ((x2 - x1)\<^sup>2 + (y2 - y1)\<^sup>2))\<^sup>2))"
  have "0 \<le> ?t" "?t \<le> 1" by simp_all
  moreover have "segmentDist pos x1 y1 x2 y2
       = sqrt ((fst pos - (x1 + ?t * (x2 - x1)))\<^sup>2 + (snd pos - (y1 + ?t * (y2 - y1)))\<^sup>2)"
    by (simp add: segmentDist_def Let_def)
  ultimately show ?thesis by blast
qed

lemma sqrt_1600: "sqrt 1600 = 40"
  by (rule real_sqrt_unique) simp_all

lemma sqrt_100: "sqrt 100 = 10"
  by (rule real_sqrt_unique) simp_all

lemma sqrt_400: "sqrt 400 = 20"
  by (rule real_sqrt_unique) simp_all

lemma hitShape_buttonRect_inside: "hitShape (210, 210) buttonRect"
  by (simp add: hitShape_def buttonRect_def orNumber_def Let_def)

lemma hitShape_buttonRect_origin: "\<not> hitShape (0, 0) buttonRect"
  by (simp add: hitShape_def buttonRect_def orNumber_def Let_def)

lemma hitLine_strokeAcross: "hitLine (210, 210) strokeAcross"
  by (simp add: hitLine_def strokeAcross_def hitSegment_def segmentDist_def hitThreshold_def
      orNumber_def sqrt_1600 Let_def)

text \<open>
  Claim C10. The bin tool tests the shapes, last inserted first, before any stroke. When
  the click hits some shape, whatever strokes lie under it, every stroke is kept and
  exactly one shape is removed: the last-inserted shape that the click hits. Shapes and
  strokes are kept in separate arrays, so the order in which a shape and a stroke were
  drawn plays no part.
\<close>

theorem bin_shapes_before_strokes:
  assumes "i < length (shapes c)" and "hitShape pos (shapes c ! i)"
  shows "lines (binClick pos c) = lines c \<and>
         (\<exists>k. i \<le> k \<and> k < length (shapes c) \<and> hitShape pos (shapes c ! k) \<and>
              (\<forall>m. k < m \<and> m < length (shapes c) \<longrightarrow> \<not> hitShape pos (shapes c ! m)) \<and>
              shapes (binClick pos c) = take k (shapes c) @ drop (Suc k) (shapes c))"
proof -
  from findHitShape_hit [OF assms] obtain k
    where k: "findHitShape pos (shapes c) (length (shapes c)) = Some k" and ik: "i \<le> k"
    by blast
  from findHitShape_Some [OF k] have
    "k < length (shapes c)" "hitShape pos (shapes c ! k)"
    "\<forall>m. k < m \<and> m < length (shapes c) \<longrightarrow> \<not> hitShape pos (shapes c ! m)"
    by blast+
  moreover have "lines (binClick pos c) = lines c"
    "shapes (binClick pos c) = take k (shapes c) @ drop (Suc k) (shapes c)"
    using k by (simp_all add: binClick_def removeAt_eq)
  ultimately show ?thesis using ik by blast
qed

text \<open>
  Claim C10 on the button rectangle with a stroke across it: the click at (210, 210) is
  inside the rectangle and on the stroke; the rectangle goes and the stroke stays.
\<close>

theorem bin_shapes_before_strokes_witness:
  "0 < length (shapes strokeOverButton) \<and>
   hitShape (210, 210) (shapes strokeOverButton ! 0) \<and>
   hitLine (210, 210) (lines strokeOverButton ! 0) \<and>
   lines (binClick (210, 210) strokeOverButton) = [strokeAcross] \<and>
   shapes (binClick (210, 210) strokeOverButton) = []"
proof -
  have len: "0 < length (shapes strokeOverButton)"
    by (simp add: strokeOverButton_def initialCanvas_def)
  have hit: "hitShape (210, 210) (shapes strokeOverButton ! 0)"
    by (simp add: strokeOverButton_def initialCanvas_def hitShape_buttonRect_inside)
  have near: "hitLine (210, 210) (lines strokeOverButton ! 0)"
    by (simp add: strokeOverButton_def initialCanvas_def hitLine_strokeAcross)
  from bin_shapes_before_strokes [OF len hit] obtain k where
    L: "lines (binClick (210, 210) strokeOverButton) = lines strokeOverButton" and
    k: "k < length (shapes strokeOverButton)" and
    S: "shapes (binClick (210, 210) strokeOverButton)
          = take k (shapes strokeOverButton) @ drop (Suc k) (shapes strokeOverButton)"
    by blast
  from k have "k = 0" by (simp add: strokeOverButton_def initialCanvas_def)
  with L S len hit near show ?thesis
    by (simp add: strokeOverButton_def initialCanvas_def)
qed

lemma hitSegment_iff:
  "hitSegment pos reach x1 y1 x2 y2 \<longleftrightarrow>
     (x1, y1) \<noteq> (x2, y2) \<and> segmentDist pos x1 y1 x2 y2 \<le> reach"
  using sqrt_zero_iff_same_point [of x2 x1 y2 y1] by (auto simp: hitSegment_def)

lemma binClick_cases:
  "(\<forall>i < length (shapes c). \<not> hitShape pos (shapes c ! i)) \<and>
   (\<forall>j < length (lines c). \<not> hitLine pos (lines c ! j)) \<and> binClick pos c = c
   \<or> (\<exists>k < length (shapes c). hitShape pos (shapes c ! k) \<and>
        (\<forall>m. k < m \<and> m < length (shapes c) \<longrightarrow> \<not> hitShape pos (shapes c ! m)) \<and>
        binClick pos c = c\<lparr>shapes := take k (shapes c) @ drop (Suc k) (shapes c)\<rparr>)
   \<or> (\<forall>i < length (shapes c). \<not> hitShape pos (shapes c ! i)) \<and>
     (\<exists>k < length (lines c). hitLine pos (lines c ! k) \<and>
        (\<forall>m. k < m \<and> m < length (lines c) \<longrightarrow> \<not> hitLine pos (lines c ! m)) \<and>
        binClick pos c = c\<lparr>lines := take k (lines c) @ drop (Suc k) (lines c)\<rparr>)"
proof (cases "findHitShape pos (shapes c) (length (shapes c))")
  case (Some k)
  from findHitShape_Some [OF Some] Some show ?thesis
    by (auto simp: binClick_def removeAt_eq)
next
  case None
  then have noShape: "\<forall>i < length (shapes c). \<not> hitShape pos (shapes c ! i)"
    by (simp add: findHitShape_None)
  show ?thesis
  proof (cases "findHitLine pos (lines c) (length (lines c))")
    case (Some k)
    from findHitLine_Some [OF Some] Some None noShape show ?thesis
      by (auto simp: binClick_def removeAt_eq)
  next
    case NoLine: None
    then have "\<forall>j < length (lines c). \<not> hitLine pos (lines c ! j)"
      by (simp add: findHitLine_None)
    with noShape None NoLine show ?thesis
      by (simp add: binClick_def)
  qed
qed

text \<open>
  Claim C7, as the code has it. One click of the bin tool does one of three things: it
  hits nothing and changes nothing; it removes exactly one shape, the last-inserted one
  hit, and no stroke; or, no shape being hit, it removes exactly one stroke, the
  last-drawn one hit. The handler returns no value: a deletion shows only in the state.
  A stroke is hit exactly when one of its segments whose end points differ lies within
  \<open>hitThreshold + (width || 5) / 2\<close> of the click. The distance of a segment is the
  distance from the click to a point of the segment, and no point of the segment is
  nearer: it is the distance to the nearest point of the segment.
\<close>

theorem binClick_removes_at_most_one:
  "((\<forall>i < length (shapes c). \<not> hitShape pos (shapes c ! i)) \<and>
    (\<forall>j < length (lines c). \<not> hitLine pos (lines c ! j)) \<and> binClick pos c = c
    \<or> (\<exists>k < length (shapes c). hitShape pos (shapes c ! k) \<and>
         (\<forall>m. k < m \<and> m < length (shapes c) \<longrightarrow> \<not> hitShape pos (shapes c ! m)) \<and>
         binClick pos c = c\<lparr>shapes := take k (shapes c) @ drop (Suc k) (shapes c)\<rparr>)
    \<or> (\<forall>i < length (shapes c). \<not> hitShape pos (shapes c ! i)) \<and>
      (\<exists>k < length (lines c). hitLine pos (lines c ! k) \<and>
         (\<forall>m. k < m \<and> m < length (lines c) \<longrightarrow> \<not> hitLine pos (lines c ! m)) \<and>
         binClick pos c = c\<lparr>lines := take k (lines c) @ drop (Suc k) (lines c)\<rparr>))
   \<and> (hitLine pos line \<longleftrightarrow>
        (\<exists>j. 2 * j + 3 < length (l_points line) \<and>
             (l_points line ! (2 * j), l_points line ! (2 * j + 1))
               \<noteq> (l_points line ! (2 * j + 2), l_points line ! (2 * j + 3)) \<and>
             segmentDist pos (l_points line ! (2 * j)) (l_points line ! (2 * j + 1))
                 (l_points line ! (2 * j + 2)) (l_points line ! (2 * j + 3))
               \<le> hitThreshold + orNumber (l_width line) 5 / 2))
   \<and> (\<forall>x1 y1 x2 y2 t. (x1, y1) \<noteq> (x2, y2) \<and> 0 \<le> t \<and> t \<le> 1 \<longrightarrow>
         segmentDist pos x1 y1 x2 y2
           \<le> sqrt ((fst pos - (x1 + t * (x2 - x1)))\<^sup>2 + (snd pos - (y1 + t * (y2 - y1)))\<^sup>2))
   \<and> (\<forall>x1 y1 x2 y2. \<exists>t. 0 \<le> t \<and> t \<le> 1 \<and>
         segmentDist pos x1 y1 x2 y2
           = sqrt ((fst pos - (x1 + t * (x2 - x1)))\<^sup>2 + (snd pos - (y1 + t * (y2 - y1)))\<^sup>2))
   \<and> hitThreshold = 10"
proof -
  have geometry: "\<forall>x1 y1 x2 y2 t. (x1, y1) \<noteq> (x2, y2) \<and> 0 \<le> t \<and> t \<le> 1 \<longrightarrow>
         segmentDist pos x1 y1 x2 y2
           \<le> sqrt ((fst pos - (x1 + t * (x2 - x1)))\<^sup>2 + (snd pos - (y1 + t * (y2 - y1)))\<^sup>2)"
    using segmentDist_least by blast
  have attained: "\<forall>x1 y1 x2 y2. \<exists>t. 0 \<le> t \<and> t \<le> 1 \<and>
         segmentDist pos x1 y1 x2 y2
           = sqrt ((fst pos - (x1 + t * (x2 - x1)))\<^sup>2 + (snd pos - (y1 + t * (y2 - y1)))\<^sup>2)"
    using segmentDist_attained by blast
  have stroke: "hitLine pos line \<longleftrightarrow>
        (\<exists>j. 2 * j + 3 < length (l_points line) \<and>
             (l_points line ! (2 * j), l_points line ! (2 * j + 1))
               \<noteq> (l_points line ! (2 * j + 2), l_points line ! (2 * j + 3)) \<and>
             segmentDist pos (l_points line ! (2 * j)) (l_points line ! (2 * j + 1))
                 (l_points line ! (2 * j + 2)) (l_points line ! (2 * j + 3))
               \<le> hitThreshold + orNumber (l_width line) 5 / 2)"
    unfolding hitLine_def hitSegments_iff hitSegment_iff by (rule refl)
  have reach: "hitThreshold = 10"
    by (rule hitThreshold_def)
  from binClick_cases [of c pos] stroke geometry attained reach show ?thesis
    by (rule conjI [OF _ conjI [OF _ conjI [OF _ conjI]]])
qed

text \<open>
  Claim C7's example: on a canvas holding the rectangle from (200, 200) to (320, 245), a
  click at (210, 210) removes it and a click at (0, 0) removes nothing. On a canvas
  holding only the stroke from (190, 210) to (230, 210), of width 5, a click at
  (210, 220), at distance 10 from it, removes the stroke, and a click at (210, 230), at
  distance 20, beyond \<open>10 + 5 / 2\<close>, removes nothing.
\<close>

theorem binClick_removes_at_most_one_witness:
  "hitShape (210, 210) buttonRect \<and> \<not> hitShape (0, 0) buttonRect \<and>
   binClick (210, 210) buttonCanvas = initialCanvas \<and>
   binClick (0, 0) buttonCanvas = buttonCanvas \<and>
   segmentDist (210, 220) 190 210 230 210 = 10 \<and>
   hitLine (210, 220) strokeAcross \<and>
   binClick (210, 220) strokeCanvas = initialCanvas \<and>
   segmentDist (210, 230) 190 210 230 210 = 20 \<and>
   \<not> hitLine (210, 230) strokeAcross \<and>
   binClick (210, 230) strokeCanvas = strokeCanvas"
proof -
  have shapes1: "shapes buttonCanvas = [buttonRect]" and lines1: "lines buttonCanvas = []"
    by (simp_all add: buttonCanvas_def initialCanvas_def)
  have shapes2: "shapes strokeCanvas = []" and lines2: "lines strokeCanvas = [strokeAcross]"
    by (simp_all add: strokeCanvas_def initialCanvas_def)
  have pts: "l_points strokeAcross = [190, 210, 230, 210]" and wd: "l_width strokeAcross = Some 5"
    by (simp_all add: strokeAcross_def)
  note T = binClick_removes_at_most_one
  from T [of buttonCanvas "(210, 210)" strokeAcross]
  have inside: "binClick (210, 210) buttonCanvas = buttonCanvas\<lparr>shapes := []\<rparr>"
    using hitShape_buttonRect_inside by (auto simp: shapes1 lines1)
  from T [of buttonCanvas "(0, 0)" strokeAcross]
  have origin: "binClick (0, 0) buttonCanvas = buttonCanvas"
    using hitShape_buttonRect_origin by (auto simp: shapes1 lines1)
  have near: "segmentDist (210, 220) 190 210 230 210 = 10"
    by (simp add: segmentDist_def Let_def sqrt_1600 sqrt_100)
  have far: "segmentDist (210, 230) 190 210 230 210 = 20"
    by (simp add: segmentDist_def Let_def sqrt_1600 sqrt_400)
  have only: "2 * j + 3 < length [190, 210, 230, 210 :: real] \<longleftrightarrow> j = 0" for j :: nat
    by auto
  from T [of strokeCanvas "(210, 220)" strokeAcross]
  have hitIff: "hitLine (210, 220) strokeAcross \<longleftrightarrow>
        (\<exists>j. 2 * j + 3 < length (l_points strokeAcross) \<and>
             (l_points strokeAcross ! (2 * j), l_points strokeAcross ! (2 * j + 1))
               \<noteq> (l_points strokeAcross ! (2 * j + 2), l_points strokeAcross ! (2 * j + 3)) \<and>
             segmentDist (210, 220) (l_points strokeAcross ! (2 * j)) (l_points strokeAcross ! (2 * j + 1))
                 (l_points strokeAcross ! (2 * j + 2)) (l_points strokeAcross ! (2 * j + 3))
               \<le> hitThreshold + orNumber (l_width strokeAcross) 5 / 2)"
    and reach: "hitThreshold = 10"
    by blast+
  have hit: "hitLine (210, 220) strokeAcross"
    unfolding hitIff pts wd only reach using near by (simp add: orNumber_def)
  from T [of strokeCanvas "(210, 230)" strokeAcross]
  have missIff: "hitLine (210, 230) strokeAcross \<longleftrightarrow>
        (\<exists>j. 2 * j + 3 < length (l_points strokeAcross) \<and>
             (l_points strokeAcross ! (2 * j), l_points strokeAcross ! (2 * j + 1))
               \<noteq> (l_points strokeAcross ! (2 * j + 2), l_points strokeAcross ! (2 * j + 3)) \<and>
             segmentDist (210, 230) (l_points strokeAcross ! (2 * j)) (l_points strokeAcross ! (2 * j + 1))
                 (l_points strokeAcross ! (2 * j + 2)) (l_points strokeAcross ! (2 * j + 3))
               \<le> hitThreshold + orNumber (l_width strokeAcross) 5 / 2)"
    by blast
  have miss: "\<not> hitLine (210, 230) strokeAcross"
    unfolding missIff pts wd only reach using far by (simp add: orNumber_def)
  from T [of strokeCanvas "(210, 220)" strokeAcross] hit
  have removed: "binClick (210, 220) strokeCanvas = strokeCanvas\<lparr>lines := []\<rparr>"
    by (auto simp: shapes2 lines2)
  from T [of strokeCanvas "(210, 230)" strokeAcross] miss
  have kept: "binClick (210, 230) strokeCanvas = strokeCanvas"
    by (auto simp: shapes2 lines2)
  from inside origin hitShape_buttonRect_inside hitShape_buttonRect_origin
    near far hit miss removed kept
  show ?thesis by (simp add: buttonCanvas_def strokeCanvas_def initialCanvas_def)
qed

text \<open>
  Claim C7 as stated fails on a stroke whose two points coincide: the click is at
  distance 0 from its only segment, within \<open>hitThreshold + 5 / 2\<close>, and the stroke is
  not removed, because a segment of length zero is skipped.
\<close>

theorem binClick_dot_stroke_counterexample:
  "sqrt ((5 - 5)\<^sup>2 + (5 - 5)\<^sup>2) \<le> hitThreshold + 5 / 2 \<and>
   lines dotCanvas = [dotStroke] \<and>
   l_points dotStroke = [5, 5, 5, 5] \<and> l_width dotStroke = Some 5 \<and>
   binClick (5, 5) dotCanvas = dotCanvas"
  by (simp add: binClick_def dotCanvas_def dotStroke_def initialCanvas_def hitLine_def
      hitSegment_def hitThreshold_def orNumber_def)

section \<open>Facts about the pointer handlers and template insertion\<close>

text \<open>
  Claim C6. When a drag ends with a rectangle or circle in progress, the shapes are left
  as they were if the rectangle's width is 0 or the circle's radius is 0, and the shape in
  progress is appended otherwise. A drag with a shape tool that ends where it began
  leaves the shapes, and their number, unchanged.
\<close>

theorem handleMouseUp_discards_zero_extent:
  "(currentShape c = Some cs \<and> (s_type cs = Rectangle \<or> s_type cs = Circle) \<longrightarrow>
      shapes (handleMouseUp c) =
        (if (s_type cs = Rectangle \<and> s_width cs = Some 0) \<or>
            (s_type cs = Circle \<and> s_radius cs = Some 0)
         then shapes c else shapes c @ [cs]) \<and>
      lines (handleMouseUp c) = lines c \<and>
      currentShape (handleMouseUp c) = None \<and> \<not> isDrawing (handleMouseUp c)) \<and>
   (isShapeTool props \<longrightarrow>
      (\<exists>c1 c2. handleMouseMove props (Some q) (handleMouseDown props False (Some p) now c) = Some c1 \<and>
          handleMouseMove props (Some p) c1 = Some c2 \<and>
          shapes (handleMouseUp c2) = shapes c \<and>
          length (shapes (handleMouseUp c2)) = length (shapes c)))"
proof (rule conjI)
  show "currentShape c = Some cs \<and> (s_type cs = Rectangle \<or> s_type cs = Circle) \<longrightarrow>
      shapes (handleMouseUp c) =
        (if (s_type cs = Rectangle \<and> s_width cs = Some 0) \<or>
            (s_type cs = Circle \<and> s_radius cs = Some 0)
         then shapes c else shapes c @ [cs]) \<and>
      lines (handleMouseUp c) = lines c \<and>
      currentShape (handleMouseUp c) = None \<and> \<not> isDrawing (handleMouseUp c)"
    by (auto simp: handleMouseUp_def)
next
  show "isShapeTool props \<longrightarrow>
      (\<exists>c1 c2. handleMouseMove props (Some q) (handleMouseDown props False (Some p) now c) = Some c1 \<and>
          handleMouseMove props (Some p) c1 = Some c2 \<and>
          shapes (handleMouseUp c2) = shapes c \<and>
          length (shapes (handleMouseUp c2)) = length (shapes c))"
  proof
    assume st: "isShapeTool props"
    then have notBin: "tool props \<noteq> ''bin''" and notPen: "tool props \<noteq> ''pen''"
      by (auto simp: isShapeTool_def)
    show "\<exists>c1 c2. handleMouseMove props (Some q) (handleMouseDown props False (Some p) now c) = Some c1 \<and>
          handleMouseMove props (Some p) c1 = Some c2 \<and>
          shapes (handleMouseUp c2) = shapes c \<and>
          length (shapes (handleMouseUp c2)) = length (shapes c)"
    proof (cases "tool props = ''circle''")
      case True
      with notBin notPen show ?thesis
        by (simp add: handleMouseDown_def handleMouseMove_def handleMouseUp_def)
    next
      case False
      with st notBin notPen show ?thesis
        by (simp add: handleMouseDown_def handleMouseMove_def handleMouseUp_def isShapeTool_def)
    qed
  qed
qed

text \<open>
  Claim C6 on a canvas holding one rectangle: a dragged rectangle of width 0 is dropped,
  one of width 30 is appended, and a drag from (10, 10) to (40, 30) and back adds nothing.
\<close>

theorem handleMouseUp_discards_zero_extent_witness:
  "currentShape (dragging 0) = Some (draggedRect 0) \<and> s_type (draggedRect 0) = Rectangle \<and>
   shapes (handleMouseUp (dragging 0)) = [buttonRect] \<and>
   shapes (handleMouseUp (dragging 30)) = [buttonRect, draggedRect 30] \<and>
   isShapeTool rectangleProps \<and>
   (\<exists>c1 c2. handleMouseMove rectangleProps (Some (40, 30))
               (handleMouseDown rectangleProps False (Some (10, 10)) ''1'' buttonCanvas) = Some c1 \<and>
            handleMouseMove rectangleProps (Some (10, 10)) c1 = Some c2 \<and>
            shapes (handleMouseUp c2) = [buttonRect])"
proof -
  have cur: "currentShape (dragging w) = Some (draggedRect w)" for w
    by (simp add: dragging_def)
  have kind: "s_type (draggedRect w) = Rectangle" for w
    by (simp add: draggedRect_def)
  have sh: "shapes (dragging w) = [buttonRect]" for w
    by (simp add: dragging_def buttonCanvas_def initialCanvas_def)
  have w: "s_width (draggedRect w) = Some w" for w
    by (simp add: draggedRect_def)
  have tool: "isShapeTool rectangleProps"
    by (simp add: isShapeTool_def rectangleProps_def defaultProps_def)
  note T = handleMouseUp_discards_zero_extent
  from T [of "dragging 0" "draggedRect 0"] cur kind
  have zero: "shapes (handleMouseUp (dragging 0)) = [buttonRect]"
    by (simp add: sh w)
  from T [of "dragging 30" "draggedRect 30"] cur kind
  have pos: "shapes (handleMouseUp (dragging 30)) = [buttonRect, draggedRect 30]"
    by (simp add: sh w)
  have sb: "shapes buttonCanvas = [buttonRect]"
    by (simp add: buttonCanvas_def initialCanvas_def)
  from T [of buttonCanvas undefined rectangleProps "(40, 30)" "(10, 10)" "''1''"] tool
  obtain c1 c2 where
    "handleMouseMove rectangleProps (Some (40, 30))
       (handleMouseDown rectangleProps False (Some (10, 10)) ''1'' buttonCanvas) = Some c1"
    "handleMouseMove rectangleProps (Some (10, 10)) c1 = Some c2"
    "shapes (handleMouseUp c2) = shapes buttonCanvas"
    by blast
  then have drag: "\<exists>c1 c2. handleMouseMove rectangleProps (Some (40, 30))
               (handleMouseDown rectangleProps False (Some (10, 10)) ''1'' buttonCanvas) = Some c1 \<and>
            handleMouseMove rectangleProps (Some (10, 10)) c1 = Some c2 \<and>
            shapes (handleMouseUp c2) = [buttonRect]"
    unfolding sb by blast
  from cur kind zero pos tool drag show ?thesis by simp
qed

text \<open>
  Claim C2 as stated fails: an incoming shape that carries an identifier keeps it.
  Inserting a copy of the rectangle already on the canvas gives two shapes with the same
  identifier.
\<close>

theorem insertTemplate_keeps_supplied_id_counterexample:
  "s_id buttonRect = Some ''shape-1-0.5'' \<and>
   shapes buttonCanvas = [buttonRect] \<and>
   shapes (insertTemplate defaultProps freshButtonIds
             \<lparr>t_lines = None, t_shapes = Some [buttonRect]\<rparr> buttonCanvas)
     = [buttonRect, buttonRect] \<and>
   \<not> distinct (shapeIds (shapes (insertTemplate defaultProps freshButtonIds
             \<lparr>t_lines = None, t_shapes = Some [buttonRect]\<rparr> buttonCanvas)))"
  by (simp add: insertTemplate_def newShapes_def templateShape_def orString_def orNumber_def
      buttonCanvas_def buttonRect_def initialCanvas_def defaultProps_def shapeIds_def)

lemma insertTemplate_shapes:
  "shapes (insertTemplate props genId data c) = shapes c @ newShapes props genId (incoming data)"
  by (simp add: insertTemplate_def incoming_def newShapes_def Let_def split: option.splits)

lemma insertTemplate_lines:
  "lines (insertTemplate props genId data c) = lines c @ incomingLines data"
  by (simp add: insertTemplate_def incomingLines_def Let_def split: option.splits)

lemma length_newShapes [simp]: "length (newShapes props genId ss) = length ss"
  by (simp add: newShapes_def)

lemma nth_newShapes:
  "i < length ss \<Longrightarrow> newShapes props genId ss ! i = templateShape (strokeColor props) (genId i) (ss ! i)"
  by (simp add: newShapes_def nth_enumerate_eq)

lemma s_id_templateShape [simp]:
  "s_id (templateShape stroke generated s) = Some (orString (s_id s) generated)"
  by (simp add: templateShape_def)

lemma shapeIds_newShapes:
  "shapeIds (newShapes props genId ss) = map (\<lambda>i. Some (orString (s_id (ss ! i)) (genId i))) [0 ..< length ss]"
  by (rule nth_equalityI) (simp_all add: shapeIds_def nth_newShapes)

lemma orString_lacksId: "lacksId s \<Longrightarrow> orString (s_id s) g = g"
  by (auto simp: lacksId_def orString_def)

text \<open>
  Claim C2, as the code has it. \<open>insertTemplate\<close> appends the incoming lines as they
  are (a line has no identifier) and one shape per incoming shape, leaving what was on the
  canvas in place. An incoming shape with a non-empty identifier keeps it; a shape with
  none, or an empty one, gets the generated identifier. When no incoming shape carries
  an identifier and the generated identifiers differ from one another and from those on
  the canvas, the identifiers on the canvas stay distinct.
\<close>

theorem insertTemplate_identifiers:
  "lines (insertTemplate props genId data c) = lines c @ incomingLines data \<and>
   shapes (insertTemplate props genId data c) = shapes c @ newShapes props genId (incoming data) \<and>
   length (newShapes props genId (incoming data)) = length (incoming data) \<and>
   (\<forall>i < length (incoming data).
      s_id (newShapes props genId (incoming data) ! i)
        = Some (case s_id (incoming data ! i) of
                  None \<Rightarrow> genId i
                | Some given \<Rightarrow> if given = [] then genId i else given)) \<and>
   (list_all lacksId (incoming data) \<and> inj_on genId {..< length (incoming data)} \<and>
    (\<forall>i < length (incoming data). Some (genId i) \<notin> set (shapeIds (shapes c))) \<and>
    distinct (shapeIds (shapes c)) \<longrightarrow>
      distinct (shapeIds (shapes (insertTemplate props genId data c))))"
proof -
  let ?ss = "incoming data"
  have ids: "\<forall>i < length ?ss.
      s_id (newShapes props genId ?ss ! i)
        = Some (case s_id (?ss ! i) of
                  None \<Rightarrow> genId i
                | Some given \<Rightarrow> if given = [] then genId i else given)"
    by (simp add: nth_newShapes orString_def)
  have fresh: "distinct (shapeIds (shapes (insertTemplate props genId data c)))"
    if lack: "list_all lacksId ?ss" and inj: "inj_on genId {..< length ?ss}"
      and new: "\<forall>i < length ?ss. Some (genId i) \<notin> set (shapeIds (shapes c))"
      and old: "distinct (shapeIds (shapes c))"
  proof -
    have gen: "shapeIds (newShapes props genId ?ss) = map (\<lambda>i. Some (genId i)) [0 ..< length ?ss]"
      unfolding shapeIds_newShapes using lack
      by (auto simp: list_all_length orString_lacksId)
    have "inj_on (\<lambda>i. Some (genId i)) (set [0 ..< length ?ss])"
      using inj by (auto simp: inj_on_def)
    then have d: "distinct (shapeIds (newShapes props genId ?ss))"
      unfolding gen by (simp add: distinct_map)
    have disj: "set (shapeIds (shapes c)) \<inter> set (shapeIds (newShapes props genId ?ss)) = {}"
      unfolding gen using new by auto
    have "shapeIds (shapes (insertTemplate props genId data c))
        = shapeIds (shapes c) @ shapeIds (newShapes props genId ?ss)"
      by (simp add: insertTemplate_shapes shapeIds_def)
    with old d disj show ?thesis by simp
  qed
  from insertTemplate_lines insertTemplate_shapes length_newShapes ids fresh
  show ?thesis by blast
qed

text \<open>
  Claim C2 on the palette's button rectangle, which comes without an identifier, inserted
  next to a rectangle already on the canvas.
\<close>

theorem insertTemplate_identifiers_witness:
  "list_all lacksId (incoming \<lparr>t_lines = None, t_shapes = Some [paletteRect]\<rparr>) \<and>
   inj_on freshButtonIds {..< length (incoming \<lparr>t_lines = None, t_shapes = Some [paletteRect]\<rparr>)} \<and>
   distinct (shapeIds (shapes buttonCanvas)) \<and>
   shapeIds (shapes (insertTemplate defaultProps freshButtonIds
      \<lparr>t_lines = None, t_shapes = Some [paletteRect]\<rparr> buttonCanvas))
     = [Some ''shape-1-0.5'', Some ''shape-2-0.7''] \<and>
   distinct (shapeIds (shapes (insertTemplate defaultProps freshButtonIds
      \<lparr>t_lines = None, t_shapes = Some [paletteRect]\<rparr> buttonCanvas))) \<and>
   s_id (newShapes defaultProps freshButtonIds [buttonRect] ! 0) = Some ''shape-1-0.5''"
proof -
  let ?data = "\<lparr>t_lines = None, t_shapes = Some [paletteRect]\<rparr>"
  have inc: "incoming ?data = [paletteRect]"
    by (simp add: incoming_def)
  have lack: "list_all lacksId (incoming ?data)"
    unfolding inc by (simp add: lacksId_def paletteRect_def)
  have inj: "inj_on freshButtonIds {..< length (incoming ?data)}"
    unfolding inc by (simp add: inj_on_def)
  have old: "shapeIds (shapes buttonCanvas) = [Some ''shape-1-0.5'']"
    by (simp add: shapeIds_def buttonCanvas_def initialCanvas_def buttonRect_def)
  have new: "\<forall>i < length (incoming ?data). Some (freshButtonIds i) \<notin> set (shapeIds (shapes buttonCanvas))"
    unfolding inc old by (simp add: freshButtonIds_def)
  note T = insertTemplate_identifiers [of defaultProps freshButtonIds ?data buttonCanvas]
  have oldDistinct: "distinct (shapeIds (shapes buttonCanvas))"
    by (simp add: old)
  from T lack inj new oldDistinct
  have d: "distinct (shapeIds (shapes (insertTemplate defaultProps freshButtonIds ?data buttonCanvas)))"
    by blast
  from T have sh: "shapes (insertTemplate defaultProps freshButtonIds ?data buttonCanvas)
      = shapes buttonCanvas @ newShapes defaultProps freshButtonIds (incoming ?data)"
    by blast
  from T have "\<forall>i < length (incoming ?data).
      s_id (newShapes defaultProps freshButtonIds (incoming ?data) ! i)
        = Some (case s_id (incoming ?data ! i) of
                  None \<Rightarrow> freshButtonIds i
                | Some given \<Rightarrow> if given = [] then freshButtonIds i else given)"
    by blast
  then have "s_id (newShapes defaultProps freshButtonIds [paletteRect] ! 0)
        = Some (case s_id ([paletteRect] ! 0) of
                  None \<Rightarrow> freshButtonIds 0
                | Some given \<Rightarrow> if given = [] then freshButtonIds 0 else given)"
    unfolding inc by simp
  then have one: "s_id (newShapes defaultProps freshButtonIds [paletteRect] ! 0) = Some ''shape-2-0.7''"
    by (simp add: paletteRect_def freshButtonIds_def)
  have ids: "shapeIds (shapes (insertTemplate defaultProps freshButtonIds ?data buttonCanvas))
     = [Some ''shape-1-0.5'', Some ''shape-2-0.7'']"
    using one old by (simp add: sh inc shapeIds_def newShapes_def)
  have kept: "s_id (newShapes defaultProps freshButtonIds [buttonRect] ! 0) = Some ''shape-1-0.5''"
    by (simp add: newShapes_def buttonRect_def orString_def)
  from lack inj oldDistinct d ids kept show ?thesis by blast
qed

section \<open>Facts about the synchronization\<close>

lemma applyHistoryEffect_hist [simp]: "hist (applyHistoryEffect props genId b) = hist b"
  by (simp add: applyHistoryEffect_def split: option.splits)

lemma applyHistoryEffect_inSync: "inSync (applyHistoryEffect props genId b)"
  by (simp add: applyHistoryEffect_def inSync_def split: option.splits)

lemma pollCallback_inSync: "inSync b \<Longrightarrow> pollCallback N b = b"
  by (auto simp: pollCallback_def inSync_def split: option.splits)

lemma timer_step_hist:
  assumes "inSync b" "isTimerEvent e"
  shows "hist (step props N genId b e) = hist b \<and> inSync (step props N genId b e)"
  using assms
  by (cases e) (auto simp: isTimerEvent_def pollCallback_inSync applyHistoryEffect_inSync)

lemma timer_run_hist:
  assumes "inSync b" "list_all isTimerEvent es"
  shows "hist (run props N genIds t b es) = hist b"
  using assms
proof (induction es arbitrary: b t)
  case Nil
  then show ?case by simp
next
  case (Cons e es)
  from Cons.prems have e: "isTimerEvent e" and es: "list_all isTimerEvent es"
    by simp_all
  from timer_step_hist [OF Cons.prems(1) e, of props N "genIds t"]
  have h: "hist (step props N (genIds t) b e) = hist b"
    and s: "inSync (step props N (genIds t) b e)"
    by simp_all
  from Cons.IH [OF s es] h show ?case by simp
qed

lemma orString_truthy: "truthyString v \<Longrightarrow> Some (orString v d) = v"
  by (cases v) (simp_all add: truthyString_def orString_def)

lemma orNumber_truthy: "truthyNumber v \<Longrightarrow> Some (orNumber v d) = v"
  by (cases v) (simp_all add: truthyNumber_def orNumber_def)

lemma templateShape_hasStyle:
  assumes "hasStyle s"
  shows "templateShape stroke generated s = s"
proof -
  from assms have
    "Some (orString (s_id s) generated) = s_id s"
    "Some (orString (s_stroke s) stroke) = s_stroke s"
    "Some (orNumber (s_strokeWidth s) 2) = s_strokeWidth s"
    "Some (orString (s_fill s) ''transparent'') = s_fill s"
    by (simp_all add: hasStyle_def orString_truthy orNumber_truthy)
  then show ?thesis
    by (simp add: templateShape_def)
qed

lemma newShapes_hasStyle:
  assumes "list_all hasStyle ss"
  shows "newShapes props genId ss = ss"
proof (rule nth_equalityI)
  show "length (newShapes props genId ss) = length ss" by simp
next
  fix i assume "i < length (newShapes props genId ss)"
  then have i: "i < length ss" by simp
  with assms have "hasStyle (ss ! i)" by (simp add: list_all_length)
  with i show "newShapes props genId ss ! i = ss ! i"
    by (simp add: nth_newShapes templateShape_hasStyle)
qed

lemma restored_hasStyle: "list_all hasStyle (shapes cs) \<Longrightarrow> restored props genId cs = cs"
  by (simp add: restored_def newShapes_hasStyle)

lemma getCanvasData_restore:
  "getCanvasData (restoreCanvas props genId cs c) = restored props genId cs"
  by (auto simp: restoreCanvas_def getCanvasData_def restored_def insertTemplate_def
      asTemplate_def clearCanvas_def newShapes_def Let_def)

lemma applyHistoryEffect_canvas:
  assumes "state (hist b) = Some cs" "canvasRef b = Some c" "\<not> isApplyingHistory b"
  shows "\<exists>c'. canvasRef (applyHistoryEffect props genId b) = Some c' \<and>
              (getCanvasData c' = cs \<or> getCanvasData c' = restored props genId cs)"
  using assms by (simp add: applyHistoryEffect_def getCanvasData_restore)

lemma applyHistoryEffect_mounted:
  "canvasRef b = Some c \<Longrightarrow> \<exists>c'. canvasRef (applyHistoryEffect props genId b) = Some c'"
  by (simp add: applyHistoryEffect_def split: option.splits)

lemma nav_step:
  assumes "isNavEvent e" "canvasRef b = Some c"
  shows "hist (step props N genId b e) = navHist (hist b) e \<and>
         (\<exists>c'. canvasRef (step props N genId b e) = Some c')"
  using assms
    applyHistoryEffect_mounted [of "b\<lparr>hist := undo (hist b)\<rparr>" c props genId]
    applyHistoryEffect_mounted [of "b\<lparr>hist := redo (hist b)\<rparr>" c props genId]
    applyHistoryEffect_mounted [of "b\<lparr>isApplyingHistory := False\<rparr>" c props genId]
  by (cases e) (auto simp: isNavEvent_def undo_def redo_def)

lemma nav_run:
  assumes "list_all isNavEvent es" "canvasRef b = Some c"
  shows "hist (run props N genIds t b es) = foldl navHist (hist b) es \<and>
         (\<exists>c'. canvasRef (run props N genIds t b es) = Some c')"
  using assms
proof (induction es arbitrary: b c t)
  case Nil
  then show ?case by simp
next
  case (Cons e es)
  from Cons.prems have e: "isNavEvent e" and es: "list_all isNavEvent es"
    by simp_all
  from nav_step [OF e Cons.prems(2), of props N "genIds t"] obtain c' where
    h: "hist (step props N (genIds t) b e) = navHist (hist b) e" and
    c': "canvasRef (step props N (genIds t) b e) = Some c'"
    by blast
  from Cons.IH [OF es c', of "Suc t"] h show ?case by simp
qed

lemma run_append:
  "run props N genIds t b (es @ fs) = run props N genIds (t + length es) (run props N genIds t b es) fs"
  by (induction es arbitrary: b t) simp_all

lemma settle_after_click:
  assumes click: "e = UndoClick \<and> canUndo (hist b) \<or> e = RedoClick \<and> canRedo (hist b)"
    and mounted: "canvasRef b = Some c"
    and target: "state (navHist (hist b) e) = Some cs"
  shows "\<exists>c'. canvasRef (run props N genIds t b [e, ApplyingTimeout]) = Some c' \<and>
              (getCanvasData c' = cs \<or> (\<exists>j. getCanvasData c' = restored props (genIds j) cs))"
proof -
  let ?b1 = "step props N (genIds t) b e"
  have nav: "isNavEvent e" using click by (auto simp: isNavEvent_def)
  from nav_step [OF nav mounted, of props N "genIds t"] obtain c1 where
    h1: "hist ?b1 = navHist (hist b) e" and c1: "canvasRef ?b1 = Some c1"
    by blast
  have sync: "inSync ?b1"
    using click by (auto simp: applyHistoryEffect_inSync)
  have st1: "state (hist ?b1) = Some cs"
    using h1 target by simp
  have run2: "run props N genIds t b [e, ApplyingTimeout] = step props N (genIds (Suc t)) ?b1 ApplyingTimeout"
    by simp
  show ?thesis
  proof (cases "isApplyingHistory ?b1")
    case True
    let ?b2 = "?b1\<lparr>isApplyingHistory := False\<rparr>"
    have "state (hist ?b2) = Some cs" "canvasRef ?b2 = Some c1" "\<not> isApplyingHistory ?b2"
      using st1 c1 by simp_all
    from applyHistoryEffect_canvas [OF this, of props "genIds (Suc t)"] True
    show ?thesis unfolding run2 by auto
  next
    case False
    with sync st1 c1 have "getCanvasData c1 = cs"
      by (simp add: inSync_def)
    with False c1 show ?thesis unfolding run2 by simp
  qed
qed

lemma undo_funpow_cursor:
  "k \<le> cursor h \<Longrightarrow> (undo ^^ k) h = h\<lparr>cursor := cursor h - k\<rparr>"
proof (induction k)
  case 0
  then show ?case by simp
next
  case (Suc k)
  then show ?case by (simp add: undo_def canUndo_def)
qed

lemma redo_funpow_cursor:
  "cursor h + k < length (entries h) \<Longrightarrow> (redo ^^ k) h = h\<lparr>cursor := cursor h + k\<rparr>"
proof (induction k)
  case 0
  then show ?case by simp
next
  case (Suc k)
  then show ?case by (simp add: redo_def canRedo_def)
qed

lemma undo_redo_history:
  assumes "k \<le> cursor h" "cursor h < length (entries h)"
  shows "(redo ^^ k) ((undo ^^ k) h) = h"
  using assms by (simp add: undo_funpow_cursor redo_funpow_cursor)

lemma foldl_navHist_undos:
  "foldl navHist h (concat (replicate k [UndoClick, ApplyingTimeout])) = (undo ^^ k) h"
  by (induction k arbitrary: h) (simp_all add: funpow_swap1)

lemma foldl_navHist_redos:
  "foldl navHist h (concat (replicate k [RedoClick, ApplyingTimeout])) = (redo ^^ k) h"
  by (induction k arbitrary: h) (simp_all add: funpow_swap1)

lemma foldl_navHist_undoRedo:
  "foldl navHist h (undoRedoEvents k) = (redo ^^ k) ((undo ^^ k) h)"
  by (simp add: undoRedoEvents_def foldl_navHist_undos foldl_navHist_redos)

lemma undoRedoEvents_nav: "list_all isNavEvent (undoRedoEvents k)"
  by (induction k) (simp_all add: undoRedoEvents_def isNavEvent_def list_all_iff)

lemma concat_replicate_snoc: "concat (replicate (Suc k) xs) = concat (replicate k xs) @ xs"
  by (induction k) simp_all

lemma undoRedoEvents_Suc:
  "undoRedoEvents (Suc k) =
     (concat (replicate (Suc k) [UndoClick, ApplyingTimeout]) @
      concat (replicate k [RedoClick, ApplyingTimeout])) @ [RedoClick, ApplyingTimeout]"
  unfolding undoRedoEvents_def concat_replicate_snoc [of k "[RedoClick, ApplyingTimeout]"]
  by simp

text \<open>
  Undo and redo over a history built by pushes within the capacity: \<open>k\<close> undos and
  \<open>k\<close> redos bring the history back, and the canvas then shows the state it showed
  before, or that state as \<open>insertTemplate\<close> rebuilds it; the two agree when every shape
  of the state has its style.
\<close>

lemma undo_redo_round_trip:
  assumes built: "hist b = pushAll N ss emptyHistory" "ss \<noteq> []" "length ss \<le> N"
    and k: "k \<le> length ss - 1"
    and mounted: "canvasRef b = Some c"
    and shown: "getCanvasData c = last ss"
  shows "\<exists>c'. canvasRef (run props N genIds t b (undoRedoEvents k)) = Some c' \<and>
           hist (run props N genIds t b (undoRedoEvents k)) = hist b \<and>
           state (hist b) = Some (last ss) \<and>
           (getCanvasData c' = last ss \<or>
            (\<exists>j. getCanvasData c' = restored props (genIds j) (last ss))) \<and>
           (list_all hasStyle (shapes (last ss)) \<longrightarrow> getCanvasData c' = last ss)"
proof -
  from pushAll_within_capacity [OF built(3)] built(1)
  have E: "entries (hist b) = ss" and C: "cursor (hist b) = length ss - 1"
    by simp_all
  from E C built(2) have valid: "cursor (hist b) < length (entries (hist b))"
    by simp
  from E C built(2) have cur: "state (hist b) = Some (last ss)"
    by (simp add: state_def last_conv_nth)
  from k C have kc: "k \<le> cursor (hist b)" by simp
  have roundTrip: "foldl navHist (hist b) (undoRedoEvents k) = hist b"
    by (simp add: foldl_navHist_undoRedo undo_redo_history [OF kc valid])
  from nav_run [OF undoRedoEvents_nav mounted, of props N genIds t k] roundTrip
  have H: "hist (run props N genIds t b (undoRedoEvents k)) = hist b"
    by simp
  have "\<exists>c'. canvasRef (run props N genIds t b (undoRedoEvents k)) = Some c' \<and>
           (getCanvasData c' = last ss \<or>
            (\<exists>j. getCanvasData c' = restored props (genIds j) (last ss)))"
  proof (cases k)
    case 0
    with mounted shown show ?thesis by (simp add: undoRedoEvents_def)
  next
    case (Suc m)
    let ?pre = "concat (replicate (Suc m) [UndoClick, ApplyingTimeout]) @
                concat (replicate m [RedoClick, ApplyingTimeout])"
    let ?b1 = "run props N genIds t b ?pre"
    have preNav: "list_all isNavEvent ?pre"
      by (simp add: isNavEvent_def list_all_iff)
    from nav_run [OF preNav mounted, of props N genIds t] obtain c1 where
      h1: "hist ?b1 = foldl navHist (hist b) ?pre" and c1: "canvasRef ?b1 = Some c1"
      by blast
    have "foldl navHist (hist ?b1) [RedoClick, ApplyingTimeout] = foldl navHist (hist b) (undoRedoEvents k)"
      unfolding Suc undoRedoEvents_Suc h1 by simp
    with roundTrip have "navHist (hist ?b1) RedoClick = hist b"
      by simp
    with cur have target: "state (navHist (hist ?b1) RedoClick) = Some (last ss)"
      by simp
    have split: "run props N genIds t b (undoRedoEvents k)
        = run props N genIds (t + length ?pre) ?b1 [RedoClick, ApplyingTimeout]"
      unfolding Suc undoRedoEvents_Suc by (rule run_append)
    have "hist ?b1 = (redo ^^ m) ((undo ^^ Suc m) (hist b))"
      unfolding h1 by (simp only: foldl_append foldl_navHist_undos foldl_navHist_redos)
    also have "\<dots> = (hist b)\<lparr>cursor := cursor (hist b) - 1\<rparr>"
      using kc valid unfolding Suc
      by (simp only: undo_funpow_cursor) (simp add: redo_funpow_cursor)
    finally have "canRedo (hist ?b1)"
      using kc valid unfolding Suc by (simp add: canRedo_def)
    then have click: "RedoClick = UndoClick \<and> canUndo (hist ?b1) \<or> RedoClick = RedoClick \<and> canRedo (hist ?b1)"
      by simp
    from settle_after_click [OF click c1 target, of props N genIds "t + length ?pre"]
    show ?thesis unfolding split by blast
  qed
  then obtain c' where
    c': "canvasRef (run props N genIds t b (undoRedoEvents k)) = Some c'" and
    d: "getCanvasData c' = last ss \<or> (\<exists>j. getCanvasData c' = restored props (genIds j) (last ss))"
    by blast
  have "getCanvasData c' = last ss" if "list_all hasStyle (shapes (last ss))"
    using d restored_hasStyle [OF that] by auto
  with c' H cur d show ?thesis by blast
qed

lemma hist_bridgeAt2:
  "hist (bridgeAt [s0, s1] c) = \<lparr>entries = [s0, s1], cursor = 1\<rparr>"
  by (simp add: bridgeAt_def pushAll_def push_def emptyHistory_def maxHistory_def Let_def)

lemma textShape_from_handler:
  "shapes (handleTextSubmit defaultProps ''1'' ''Hi'' (20, 20) initialCanvas) = [textShape]"
  by (simp add: handleTextSubmit_def defaultProps_def initialCanvas_def textShape_def)

text \<open>No timer changes the wrapper in that state.\<close>

lemma stuckBridge_step:
  assumes "isTimerEvent e"
  shows "step defaultProps maxHistory genId stuckBridge e = stuckBridge"
proof -
  have changed: "getCanvasData (initialCanvas\<lparr>shapes := [textShape\<lparr>s_strokeWidth := Some 2\<rparr>]\<rparr>) \<noteq> textState"
    by (simp add: getCanvasData_def initialCanvas_def textState_def textShape_def)
  have r: "restoreCanvas defaultProps genId textState
        (initialCanvas\<lparr>shapes := [textShape\<lparr>s_strokeWidth := Some 2\<rparr>]\<rparr>)
      = initialCanvas\<lparr>shapes := [textShape\<lparr>s_strokeWidth := Some 2\<rparr>]\<rparr>"
    by (simp add: restoreCanvas_def textState_def insertTemplate_def asTemplate_def
        clearCanvas_def initialCanvas_def newShapes_def templateShape_def textShape_def
        orString_def orNumber_def defaultProps_def Let_def)
  from assms consider "e = ApplyingTimeout" | "e = PollTick"
    by (auto simp: isTimerEvent_def)
  then show ?thesis
  proof cases
    case 1
    then show ?thesis
      using changed by (simp add: stuckBridge_def applyHistoryEffect_def state_def r)
  next
    case 2
    then show ?thesis
      by (simp add: stuckBridge_def applyHistoryEffect_def pollCallback_def state_def)
  qed
qed

lemma restore_never_settles:
  assumes "list_all isTimerEvent es"
  shows "run defaultProps maxHistory genIds t stuckBridge es = stuckBridge"
  using assms
proof (induction es arbitrary: t)
  case Nil
  then show ?case by simp
next
  case (Cons e es)
  then show ?case by (simp add: stuckBridge_step del: step.simps)
qed

lemma stuckBridge_reached:
  "run defaultProps maxHistory clockIds 0 (bridgeAt [emptyState, textState] textCanvas)
     [UndoClick, ApplyingTimeout, RedoClick] = stuckBridge"
proof -
  have d: "getCanvasData textCanvas = textState"
    by (simp add: getCanvasData_def textCanvas_def textState_def initialCanvas_def)
  have ne: "textState \<noteq> emptyState"
    by (simp add: textState_def emptyState_def)
  have e0: "getCanvasData initialCanvas = emptyState"
    by (simp add: getCanvasData_def initialCanvas_def emptyState_def)
  have b1: "step defaultProps maxHistory freshButtonIds (bridgeAt [emptyState, textState] textCanvas) UndoClick
      = \<lparr>hist = \<lparr>entries = [emptyState, textState], cursor = 0\<rparr>,
         canvasRef = Some initialCanvas, isApplyingHistory = True, insertTimers = 0\<rparr>"
    using ne d
    by (simp add: hist_bridgeAt2 undo_def canUndo_def applyHistoryEffect_def state_def)
       (simp add: bridgeAt_def restoreCanvas_def emptyState_def clearCanvas_def textCanvas_def
         initialCanvas_def pushAll_def push_def emptyHistory_def maxHistory_def Let_def)
  have b2: "step defaultProps maxHistory freshButtonIds
       \<lparr>hist = \<lparr>entries = [emptyState, textState], cursor = 0\<rparr>,
         canvasRef = Some initialCanvas, isApplyingHistory = True, insertTimers = 0\<rparr> ApplyingTimeout
      = \<lparr>hist = \<lparr>entries = [emptyState, textState], cursor = 0\<rparr>,
         canvasRef = Some initialCanvas, isApplyingHistory = False, insertTimers = 0\<rparr>"
    by (simp add: applyHistoryEffect_def state_def e0)
  have r: "restoreCanvas defaultProps freshButtonIds textState initialCanvas
      = initialCanvas\<lparr>shapes := [textShape\<lparr>s_strokeWidth := Some 2\<rparr>]\<rparr>"
    by (simp add: restoreCanvas_def textState_def insertTemplate_def asTemplate_def
        clearCanvas_def initialCanvas_def newShapes_def templateShape_def textShape_def
        orString_def orNumber_def defaultProps_def Let_def)
  have b3: "step defaultProps maxHistory freshButtonIds
       \<lparr>hist = \<lparr>entries = [emptyState, textState], cursor = 0\<rparr>,
         canvasRef = Some initialCanvas, isApplyingHistory = False, insertTimers = 0\<rparr> RedoClick
      = stuckBridge"
    using ne by (simp add: redo_def canRedo_def applyHistoryEffect_def state_def e0 r stuckBridge_def)
  show ?thesis
    by (simp add: clockIds_def b1 b2 b3 del: step.simps)
qed

text \<open>
  Claim C1 at a history whose current entry holds a text placed with the text tool. The
  history is built by two pushes, the canvas shows the current entry, and one undo
  followed by one redo leaves the canvas with a different state: the text shape has
  gained \<open>strokeWidth: 2\<close>. The canvas never equals the history's state again, so every
  reset of the flag restores once more and the flag stays up.
\<close>

theorem undo_redo_text_shape_changed:
  "hist (bridgeAt [emptyState, textState] textCanvas)
     = pushAll maxHistory [emptyState, textState] emptyHistory \<and>
   length [emptyState, textState] \<le> maxHistory \<and>
   1 \<le> length [emptyState, textState] - 1 \<and>
   canvasRef (bridgeAt [emptyState, textState] textCanvas) = Some textCanvas \<and>
   getCanvasData textCanvas = textState \<and>
   state (hist (bridgeAt [emptyState, textState] textCanvas)) = Some textState \<and>
   canvasRef (run defaultProps maxHistory clockIds 0
                (bridgeAt [emptyState, textState] textCanvas) (undoRedoEvents 1))
     = Some (initialCanvas\<lparr>shapes := [textShape\<lparr>s_strokeWidth := Some 2\<rparr>]\<rparr>) \<and>
   getCanvasData (initialCanvas\<lparr>shapes := [textShape\<lparr>s_strokeWidth := Some 2\<rparr>]\<rparr>) \<noteq> textState \<and>
   isApplyingHistory (run defaultProps maxHistory clockIds 0
                (bridgeAt [emptyState, textState] textCanvas)
                (undoRedoEvents 1 @ [PollTick, ApplyingTimeout, PollTick, ApplyingTimeout]))"
proof -
  have h: "hist (bridgeAt [emptyState, textState] textCanvas)
     = pushAll maxHistory [emptyState, textState] emptyHistory"
    by (simp add: bridgeAt_def)
  have m: "canvasRef (bridgeAt [emptyState, textState] textCanvas) = Some textCanvas"
    by (simp add: bridgeAt_def)
  have d: "getCanvasData textCanvas = textState"
    by (simp add: getCanvasData_def textCanvas_def textState_def initialCanvas_def)
  have s: "state (hist (bridgeAt [emptyState, textState] textCanvas)) = Some textState"
    by (simp add: hist_bridgeAt2 state_def)
  have ev: "undoRedoEvents 1 = [UndoClick, ApplyingTimeout, RedoClick] @ [ApplyingTimeout]"
    by (simp add: undoRedoEvents_def)
  have changed: "getCanvasData (initialCanvas\<lparr>shapes := [textShape\<lparr>s_strokeWidth := Some 2\<rparr>]\<rparr>) \<noteq> textState"
    by (simp add: getCanvasData_def initialCanvas_def textState_def textShape_def)
  have timers: "list_all isTimerEvent es \<Longrightarrow>
      run defaultProps maxHistory clockIds 0 (bridgeAt [emptyState, textState] textCanvas)
        ([UndoClick, ApplyingTimeout, RedoClick] @ es) = stuckBridge" for es
    unfolding run_append stuckBridge_reached by (rule restore_never_settles)
  have final: "run defaultProps maxHistory clockIds 0
                (bridgeAt [emptyState, textState] textCanvas) (undoRedoEvents 1) = stuckBridge"
    unfolding ev by (rule timers) (simp add: isTimerEvent_def)
  have later: "run defaultProps maxHistory clockIds 0
                (bridgeAt [emptyState, textState] textCanvas)
                (undoRedoEvents 1 @ [PollTick, ApplyingTimeout, PollTick, ApplyingTimeout]) = stuckBridge"
    unfolding ev append_assoc by (rule timers) (simp add: isTimerEvent_def)
  from h m d s changed show ?thesis
    unfolding final later by (simp add: maxHistory_def stuckBridge_def)
qed

text \<open>
  On the wrapper with the flag: after an undo, whatever timers fire and however often
  (the 100 ms reset of the flag, the 500 ms poll), the history is the one the undo left:
  the poll pushes nothing, and the sequence of entries and its length are unchanged. The apply effect
  runs in the render that follows the undo and in the one that follows each reset, before
  any poll can fire; after it either the flag is up, and the poll is suppressed, or the
  canvas shows the history's state, and the poll finds nothing new.
\<close>

lemma flagged_undo_not_pushed_again:
  assumes "canUndo (hist b)" and "list_all isTimerEvent es"
  shows "hist (run props N genIds t b (UndoClick # es)) = undo (hist b) \<and>
         entries (hist (run props N genIds t b (UndoClick # es))) = entries (hist b) \<and>
         length (entries (hist (run props N genIds t b (UndoClick # es)))) = length (entries (hist b))"
proof -
  from assms(1) have "inSync (step props N (genIds t) b UndoClick)"
    by (simp add: applyHistoryEffect_inSync)
  from timer_run_hist [OF this assms(2)] assms(1)
  have "hist (run props N genIds t b (UndoClick # es)) = undo (hist b)"
    by simp
  then show ?thesis by simp
qed

text \<open>
  The same on a history of two entries: the undo clears the canvas, and after the reset
  and a poll the history still has its two entries, with the cursor on the first.
\<close>

lemma flagged_undo_not_pushed_again_example:
  "canUndo (hist (bridgeAt [emptyState, buttonState] buttonCanvas)) \<and>
   list_all isTimerEvent [ApplyingTimeout, PollTick] \<and>
   entries (hist (bridgeAt [emptyState, buttonState] buttonCanvas)) = [emptyState, buttonState] \<and>
   entries (hist (run defaultProps maxHistory clockIds 0
      (bridgeAt [emptyState, buttonState] buttonCanvas) [UndoClick, ApplyingTimeout, PollTick]))
     = [emptyState, buttonState] \<and>
   state (hist (run defaultProps maxHistory clockIds 0
      (bridgeAt [emptyState, buttonState] buttonCanvas) [UndoClick, ApplyingTimeout, PollTick]))
     = Some emptyState \<and>
   canvasRef (step defaultProps maxHistory (clockIds 0)
      (bridgeAt [emptyState, buttonState] buttonCanvas) UndoClick) = Some initialCanvas"
proof -
  have t: "list_all isTimerEvent [ApplyingTimeout, PollTick]"
    by (simp add: isTimerEvent_def)
  have h: "hist (bridgeAt [emptyState, buttonState] buttonCanvas)
      = \<lparr>entries = [emptyState, buttonState], cursor = 1\<rparr>"
    by (rule hist_bridgeAt2)
  have cu: "canUndo (hist (bridgeAt [emptyState, buttonState] buttonCanvas))"
    by (simp add: h canUndo_def)
  from flagged_undo_not_pushed_again [OF cu t, of defaultProps maxHistory clockIds 0]
  have u: "hist (run defaultProps maxHistory clockIds 0
      (bridgeAt [emptyState, buttonState] buttonCanvas) [UndoClick, ApplyingTimeout, PollTick])
     = undo (hist (bridgeAt [emptyState, buttonState] buttonCanvas))"
    by blast
  have ne: "buttonState \<noteq> emptyState"
    by (simp add: buttonState_def emptyState_def)
  have d: "getCanvasData buttonCanvas = buttonState"
    by (simp add: getCanvasData_def buttonCanvas_def buttonState_def initialCanvas_def)
  have c: "canvasRef (step defaultProps maxHistory (clockIds 0)
      (bridgeAt [emptyState, buttonState] buttonCanvas) UndoClick) = Some initialCanvas"
    using ne d
    by (simp add: h undo_def canUndo_def applyHistoryEffect_def state_def)
       (simp add: bridgeAt_def restoreCanvas_def emptyState_def clearCanvas_def buttonCanvas_def
         initialCanvas_def)
  from cu t c show ?thesis
    unfolding u h by (simp add: undo_def canUndo_def state_def)
qed

text \<open>
  In the variant without the flag an undo leaves the canvas as it is, and the next poll
  pushes what the canvas shows: after one undo from the last entry the history is back
  where it was before the undo.
\<close>

lemma unflagged_poll_cancels_undo:
  "hist (pollCallbackUnflagged maxHistory
      ((bridgeAt [emptyState, buttonState] buttonCanvas)
         \<lparr>hist := undo (hist (bridgeAt [emptyState, buttonState] buttonCanvas))\<rparr>))
     = hist (bridgeAt [emptyState, buttonState] buttonCanvas)"
proof -
  have d: "getCanvasData buttonCanvas = buttonState"
    by (simp add: getCanvasData_def buttonCanvas_def buttonState_def initialCanvas_def)
  have ne: "buttonState \<noteq> emptyState"
    by (simp add: buttonState_def emptyState_def)
  have u: "undo (hist (bridgeAt [emptyState, buttonState] buttonCanvas))
      = \<lparr>entries = [emptyState, buttonState], cursor = 0\<rparr>"
    by (simp add: hist_bridgeAt2 undo_def canUndo_def)
  have s0: "state \<lparr>entries = [emptyState, buttonState], cursor = 0\<rparr> = Some emptyState"
    by (simp add: state_def)
  have p: "push maxHistory buttonState \<lparr>entries = [emptyState, buttonState], cursor = 0\<rparr>
      = \<lparr>entries = [emptyState, buttonState], cursor = 1\<rparr>"
    by (simp add: push_def maxHistory_def Let_def)
  have c: "canvasRef (bridgeAt [emptyState, buttonState] buttonCanvas) = Some buttonCanvas"
    by (simp add: bridgeAt_def)
  show ?thesis
    unfolding u using ne
    by (simp add: pollCallbackUnflagged_def c d s0 p hist_bridgeAt2)
qed

lemma hist_editedBridge:
  "hist editedBridge = \<lparr>entries = [emptyState, buttonState, strokeState, buttonState], cursor = 3\<rparr>"
  by (simp add: editedBridge_def bridgeAt_def pushAll_def push_def emptyHistory_def
      maxHistory_def Let_def)

text \<open>
  Claim C3 on the variant of the wrapper without the flag. The history is built by four
  pushes; two undos within one poll interval leave the cursor on the second entry, which
  is what the canvas shows, so the next poll pushes nothing and the wrapper is at rest
  with four entries. One more undo moves the cursor to the first entry and is not applied
  to the canvas; the poll that follows finds the canvas different from the history's
  state and pushes it: the entries after the cursor are gone and two entries are left.
\<close>

theorem unflagged_undo_pushed_again:
  "hist editedBridge
     = pushAll maxHistory [emptyState, buttonState, strokeState, buttonState] emptyHistory \<and>
   canvasRef editedBridge = Some buttonCanvas \<and>
   getCanvasData buttonCanvas = buttonState \<and>
   runUnflagged defaultProps maxHistory clockIds 0 editedBridge [UndoClick, UndoClick, PollTick]
     = editedBridge\<lparr>hist := \<lparr>entries = [emptyState, buttonState, strokeState, buttonState],
                                cursor = 1\<rparr>\<rparr> \<and>
   state \<lparr>entries = [emptyState, buttonState, strokeState, buttonState], cursor = 1\<rparr>
     = Some buttonState \<and>
   runUnflagged defaultProps maxHistory clockIds 0 editedBridge
       [UndoClick, UndoClick, PollTick, UndoClick, PollTick]
     = editedBridge\<lparr>hist := \<lparr>entries = [emptyState, buttonState], cursor = 1\<rparr>\<rparr> \<and>
   length (entries (hist (runUnflagged defaultProps maxHistory clockIds 0 editedBridge
       [UndoClick, UndoClick, PollTick, UndoClick, PollTick]))) = 2 \<and>
   length (entries (hist (runUnflagged defaultProps maxHistory clockIds 0 editedBridge
       [UndoClick, UndoClick, PollTick, UndoClick]))) = 4"
proof -
  let ?es = "[emptyState, buttonState, strokeState, buttonState]"
  have h: "hist editedBridge = pushAll maxHistory ?es emptyHistory"
    by (simp add: editedBridge_def bridgeAt_def)
  have c: "canvasRef editedBridge = Some buttonCanvas"
    by (simp add: editedBridge_def bridgeAt_def)
  have d: "getCanvasData buttonCanvas = buttonState"
    by (simp add: getCanvasData_def buttonCanvas_def buttonState_def initialCanvas_def)
  have ne: "buttonState \<noteq> emptyState"
    by (simp add: buttonState_def emptyState_def)
  have u1: "stepUnflagged defaultProps maxHistory freshButtonIds editedBridge UndoClick
      = editedBridge\<lparr>hist := \<lparr>entries = ?es, cursor = 2\<rparr>\<rparr>"
    by (simp add: hist_editedBridge undo_def canUndo_def)
  have u2: "stepUnflagged defaultProps maxHistory freshButtonIds
        (editedBridge\<lparr>hist := \<lparr>entries = ?es, cursor = 2\<rparr>\<rparr>) UndoClick
      = editedBridge\<lparr>hist := \<lparr>entries = ?es, cursor = Suc 0\<rparr>\<rparr>"
    by (simp add: undo_def canUndo_def)
  have s1: "state \<lparr>entries = ?es, cursor = Suc 0\<rparr> = Some buttonState"
    by (simp add: state_def)
  have p1: "stepUnflagged defaultProps maxHistory freshButtonIds
        (editedBridge\<lparr>hist := \<lparr>entries = ?es, cursor = Suc 0\<rparr>\<rparr>) PollTick
      = editedBridge\<lparr>hist := \<lparr>entries = ?es, cursor = Suc 0\<rparr>\<rparr>"
    by (simp add: pollCallbackUnflagged_def c d s1)
  have u3: "stepUnflagged defaultProps maxHistory freshButtonIds
        (editedBridge\<lparr>hist := \<lparr>entries = ?es, cursor = Suc 0\<rparr>\<rparr>) UndoClick
      = editedBridge\<lparr>hist := \<lparr>entries = ?es, cursor = 0\<rparr>\<rparr>"
    by (simp add: undo_def canUndo_def)
  have s0: "state \<lparr>entries = ?es, cursor = 0\<rparr> = Some emptyState"
    by (simp add: state_def)
  have push0: "push maxHistory buttonState \<lparr>entries = ?es, cursor = 0\<rparr>
      = \<lparr>entries = [emptyState, buttonState], cursor = Suc 0\<rparr>"
    by (simp add: push_def maxHistory_def Let_def)
  have p2: "stepUnflagged defaultProps maxHistory freshButtonIds
        (editedBridge\<lparr>hist := \<lparr>entries = ?es, cursor = 0\<rparr>\<rparr>) PollTick
      = editedBridge\<lparr>hist := \<lparr>entries = [emptyState, buttonState], cursor = Suc 0\<rparr>\<rparr>"
    using ne by (simp add: pollCallbackUnflagged_def c d s0 push0)
  have rest: "runUnflagged defaultProps maxHistory clockIds 0 editedBridge [UndoClick, UndoClick, PollTick]
     = editedBridge\<lparr>hist := \<lparr>entries = ?es, cursor = 1\<rparr>\<rparr>"
    by (simp add: clockIds_def u1 u2 p1 del: stepUnflagged.simps)
  have undone: "runUnflagged defaultProps maxHistory clockIds 0 editedBridge
       [UndoClick, UndoClick, PollTick, UndoClick]
     = editedBridge\<lparr>hist := \<lparr>entries = ?es, cursor = 0\<rparr>\<rparr>"
    by (simp add: clockIds_def u1 u2 p1 u3 del: stepUnflagged.simps)
  have polled: "runUnflagged defaultProps maxHistory clockIds 0 editedBridge
       [UndoClick, UndoClick, PollTick, UndoClick, PollTick]
     = editedBridge\<lparr>hist := \<lparr>entries = [emptyState, buttonState], cursor = 1\<rparr>\<rparr>"
    by (simp add: clockIds_def u1 u2 p1 u3 p2 del: stepUnflagged.simps)
  from s1 have s1': "state \<lparr>entries = ?es, cursor = 1\<rparr> = Some buttonState"
    by simp
  from h c d s1' show ?thesis
    unfolding rest undone polled by simp
qed

text \<open>
  Claim C9 at the specification's fragment. When a poll fires between the call of
  \<open>insertTemplate\<close> and its 100 ms timer, the poll pushes the new state and the timer
  pushes it again: two new entries. When the timer fires first there is one.
\<close>

theorem insertTemplate_recorded_twice:
  "entries (hist startBridge) = [emptyState] \<and>
   entries (hist (run defaultProps maxHistory clockIds 0 startBridge
      [InsertTemplate specFragment, PollTick, InsertTimeout]))
     = [emptyState, insertedState, insertedState] \<and>
   entries (hist (run defaultProps maxHistory clockIds 0 startBridge
      [InsertTemplate specFragment, InsertTimeout, PollTick]))
     = [emptyState, insertedState]"
proof -
  let ?c1 = "initialCanvas\<lparr>shapes := [insertedRect]\<rparr>"
  have ins: "insertTemplate defaultProps freshButtonIds specFragment initialCanvas = ?c1"
    by (simp add: insertTemplate_def specFragment_def newShapes_def templateShape_def
        orString_def orNumber_def defaultProps_def freshButtonIds_def insertedRect_def
        initialCanvas_def Let_def)
  have d1: "getCanvasData ?c1 = insertedState"
    by (simp add: getCanvasData_def insertedState_def initialCanvas_def)
  have ne: "insertedState \<noteq> emptyState"
    by (simp add: insertedState_def emptyState_def)
  have s1: "step defaultProps maxHistory freshButtonIds startBridge (InsertTemplate specFragment)
      = \<lparr>hist = \<lparr>entries = [emptyState], cursor = 0\<rparr>, canvasRef = Some ?c1,
         isApplyingHistory = False, insertTimers = Suc 0\<rparr>"
    by (simp add: wrapperInsertTemplate_def startBridge_def ins useHistory_def)
  have poll: "step defaultProps maxHistory freshButtonIds
       \<lparr>hist = \<lparr>entries = [emptyState], cursor = 0\<rparr>, canvasRef = Some ?c1,
         isApplyingHistory = False, insertTimers = n\<rparr> PollTick
      = \<lparr>hist = \<lparr>entries = [emptyState, insertedState], cursor = Suc 0\<rparr>, canvasRef = Some ?c1,
         isApplyingHistory = False, insertTimers = n\<rparr>" for n
    using ne
    by (simp add: pollCallback_def applyHistoryEffect_def state_def d1 push_def maxHistory_def Let_def)
  have timer1: "step defaultProps maxHistory freshButtonIds
       \<lparr>hist = \<lparr>entries = [emptyState, insertedState], cursor = Suc 0\<rparr>, canvasRef = Some ?c1,
         isApplyingHistory = False, insertTimers = Suc 0\<rparr> InsertTimeout
      = \<lparr>hist = \<lparr>entries = [emptyState, insertedState, insertedState], cursor = Suc (Suc 0)\<rparr>,
         canvasRef = Some ?c1, isApplyingHistory = False, insertTimers = 0\<rparr>"
    by (simp add: insertTimerCallback_def applyHistoryEffect_def state_def d1 push_def
        maxHistory_def Let_def)
  have timer0: "step defaultProps maxHistory freshButtonIds
       \<lparr>hist = \<lparr>entries = [emptyState], cursor = 0\<rparr>, canvasRef = Some ?c1,
         isApplyingHistory = False, insertTimers = Suc 0\<rparr> InsertTimeout
      = \<lparr>hist = \<lparr>entries = [emptyState, insertedState], cursor = Suc 0\<rparr>,
         canvasRef = Some ?c1, isApplyingHistory = False, insertTimers = 0\<rparr>"
    by (simp add: insertTimerCallback_def applyHistoryEffect_def state_def d1 push_def
        maxHistory_def Let_def)
  have pollAfter: "step defaultProps maxHistory freshButtonIds
       \<lparr>hist = \<lparr>entries = [emptyState, insertedState], cursor = Suc 0\<rparr>, canvasRef = Some ?c1,
         isApplyingHistory = False, insertTimers = 0\<rparr> PollTick
      = \<lparr>hist = \<lparr>entries = [emptyState, insertedState], cursor = Suc 0\<rparr>, canvasRef = Some ?c1,
         isApplyingHistory = False, insertTimers = 0\<rparr>"
    by (simp add: pollCallback_def applyHistoryEffect_def state_def d1)
  have start: "entries (hist startBridge) = [emptyState]"
    by (simp add: startBridge_def useHistory_def)
  have twice: "entries (hist (run defaultProps maxHistory clockIds 0 startBridge
      [InsertTemplate specFragment, PollTick, InsertTimeout]))
     = [emptyState, insertedState, insertedState]"
    by (simp add: clockIds_def s1 poll timer1 del: step.simps)
  have once: "entries (hist (run defaultProps maxHistory clockIds 0 startBridge
      [InsertTemplate specFragment, InsertTimeout, PollTick]))
     = [emptyState, insertedState]"
    by (simp add: clockIds_def s1 timer0 pollAfter del: step.simps)
  from start twice once show ?thesis by simp
qed

section \<open>Facts about the arrays\<close>

lemma applyEdit_frame:
  assumes "allocated st" "r < nextRef st"
  shows "lineArrays (applyEdit st e) r = lineArrays st r \<and>
         shapeArrays (applyEdit st e) r = shapeArrays st r \<and>
         allocated (applyEdit st e) \<and> nextRef st \<le> nextRef (applyEdit st e)"
  using assms by (cases e) (auto simp: setLines_def setShapes_def allocated_def)

lemma applyEdits_frame:
  assumes "allocated st" "r < nextRef st"
  shows "lineArrays (applyEdits es st) r = lineArrays st r \<and>
         shapeArrays (applyEdits es st) r = shapeArrays st r"
  using assms unfolding applyEdits_def
proof (induction es arbitrary: st)
  case Nil
  then show ?case by simp
next
  case (Cons e es)
  from applyEdit_frame [OF Cons.prems, of e] have
    same: "lineArrays (applyEdit st e) r = lineArrays st r"
          "shapeArrays (applyEdit st e) r = shapeArrays st r"
    and al: "allocated (applyEdit st e)" and le: "nextRef st \<le> nextRef (applyEdit st e)"
    by simp_all
  from le Cons.prems(2) have "r < nextRef (applyEdit st e)" by simp
  from Cons.IH [OF al this] same show ?case by simp
qed

lemma setLines_live: "liveData (setLines f st) = (liveData st)\<lparr>lines := f (lines (liveData st))\<rparr>"
  by (simp add: liveData_def setLines_def)

lemma setShapes_live: "liveData (setShapes f st) = (liveData st)\<lparr>shapes := f (shapes (liveData st))\<rparr>"
  by (simp add: liveData_def setShapes_def)

lemma insertTemplate_as_edits:
  assumes "liveData st = getCanvasData c"
  shows "liveData (applyEdits [SetLines (\<lambda>prev. prev @ incomingLines data),
                               SetShapes (\<lambda>prev. prev @ newShapes props genId (incoming data))] st)
         = getCanvasData (insertTemplate props genId data c)"
  using assms
  by (simp add: applyEdits_def setLines_live setShapes_live getCanvasData_def
      insertTemplate_lines insertTemplate_shapes)

text \<open>
  Claim C8, as the code has it. \<open>getCanvasData\<close> returns the live arrays themselves,
  not copies. The component never changes an array in place, so whatever it does to its
  strokes and shapes afterwards, the returned object reads as it did. A change made in
  place to an array of the returned object is a change of the live drawing.
\<close>

theorem getCanvasData_shares_arrays:
  "readData st (getCanvasDataRefs st) = liveData st \<and>
   linesOf (getCanvasDataRefs st) = linesRef st \<and>
   shapesOf (getCanvasDataRefs st) = shapesRef st \<and>
   (allocated st \<longrightarrow>
      readData (applyEdits es st) (getCanvasDataRefs st) = readData st (getCanvasDataRefs st)) \<and>
   liveData (mutateLinesArray (linesOf (getCanvasDataRefs st)) f st)
     = (liveData st)\<lparr>lines := f (lines (liveData st))\<rparr> \<and>
   liveData (mutateShapesArray (shapesOf (getCanvasDataRefs st)) g st)
     = (liveData st)\<lparr>shapes := g (shapes (liveData st))\<rparr>"
proof -
  have frame: "readData (applyEdits es st) (getCanvasDataRefs st) = readData st (getCanvasDataRefs st)"
    if al: "allocated st"
  proof -
    from al have "linesRef st < nextRef st" "shapesRef st < nextRef st"
      by (simp_all add: allocated_def)
    from applyEdits_frame [OF al this(1), of es] applyEdits_frame [OF al this(2), of es]
    show ?thesis by (simp add: readData_def getCanvasDataRefs_def)
  qed
  have rest: "readData st (getCanvasDataRefs st) = liveData st"
    "linesOf (getCanvasDataRefs st) = linesRef st"
    "shapesOf (getCanvasDataRefs st) = shapesRef st"
    "liveData (mutateLinesArray (linesOf (getCanvasDataRefs st)) f st)
       = (liveData st)\<lparr>lines := f (lines (liveData st))\<rparr>"
    "liveData (mutateShapesArray (shapesOf (getCanvasDataRefs st)) g st)
       = (liveData st)\<lparr>shapes := g (shapes (liveData st))\<rparr>"
    by (simp_all add: readData_def getCanvasDataRefs_def liveData_def mutateLinesArray_def
        mutateShapesArray_def)
  from frame rest show ?thesis by blast
qed

text \<open>
  Claim C8 on a canvas with one stroke and one rectangle: after the shapes are emptied
  and a stroke is added, the object returned before still reads one stroke and one
  rectangle.
\<close>

theorem getCanvasData_shares_arrays_witness:
  "allocated exampleStore \<and>
   readData exampleStore (getCanvasDataRefs exampleStore)
     = \<lparr>lines = [strokeAcross], shapes = [buttonRect]\<rparr> \<and>
   liveData (applyEdits [SetShapes (\<lambda>ss. []), SetLines (\<lambda>ls. ls @ [dotStroke])] exampleStore)
     = \<lparr>lines = [strokeAcross, dotStroke], shapes = []\<rparr> \<and>
   readData (applyEdits [SetShapes (\<lambda>ss. []), SetLines (\<lambda>ls. ls @ [dotStroke])] exampleStore)
       (getCanvasDataRefs exampleStore)
     = \<lparr>lines = [strokeAcross], shapes = [buttonRect]\<rparr>"
proof -
  have al: "allocated exampleStore"
    by (simp add: allocated_def exampleStore_def)
  have before: "readData exampleStore (getCanvasDataRefs exampleStore)
     = \<lparr>lines = [strokeAcross], shapes = [buttonRect]\<rparr>"
    by (simp add: readData_def getCanvasDataRefs_def exampleStore_def)
  have live: "liveData (applyEdits [SetShapes (\<lambda>ss. []), SetLines (\<lambda>ls. ls @ [dotStroke])] exampleStore)
     = \<lparr>lines = [strokeAcross, dotStroke], shapes = []\<rparr>"
    by (simp add: liveData_def applyEdits_def setLines_def setShapes_def exampleStore_def)
  from getCanvasData_shares_arrays
    [of exampleStore "[SetShapes (\<lambda>ss. []), SetLines (\<lambda>ls. ls @ [dotStroke])]"] al
  have "readData (applyEdits [SetShapes (\<lambda>ss. []), SetLines (\<lambda>ls. ls @ [dotStroke])] exampleStore)
       (getCanvasDataRefs exampleStore) = readData exampleStore (getCanvasDataRefs exampleStore)"
    by blast
  with al before live show ?thesis by simp
qed

text \<open>
  Claim C8 as stated fails: emptying the \<open>lines\<close> array of the returned object in place
  empties the live strokes.
\<close>

theorem getCanvasData_not_a_copy_counterexample:
  "liveData exampleStore = \<lparr>lines = [strokeAcross], shapes = [buttonRect]\<rparr> \<and>
   liveData (mutateLinesArray (linesOf (getCanvasDataRefs exampleStore)) (\<lambda>ls. []) exampleStore)
     = \<lparr>lines = [], shapes = [buttonRect]\<rparr> \<and>
   liveData (mutateLinesArray (linesOf (getCanvasDataRefs exampleStore)) (\<lambda>ls. []) exampleStore)
     \<noteq> liveData exampleStore"
  by (simp add: liveData_def mutateLinesArray_def getCanvasDataRefs_def exampleStore_def)

end
